theory Spec2Isabelle
  imports Main "HOL-Library.Word" "HOL-Library.Multiset" "HOL-Library.Char_ord"
    "HOL-Library.List_Lexorder" "HOL-Library.Extended_Nat"
begin

unbundle bit_operations_syntax

section \<open>Storage configuration: WAL page size\<close>

text \<open>
  \<^verbatim>\<open>func (rc *WAL) GetPageSize() int64\<close> of package config. \<open>ltoml.Size\<close> is a
  64-bit signed integer; the function only compares it with constants and returns it, so
  no arithmetic can overflow and the value is modelled as an \<open>int\<close>.
\<close>

record WAL =
  PageSize :: int

definition MiB128 :: int where
  "MiB128 = 128 * 1024 * 1024"

definition GiB1 :: int where
  "GiB1 = 1024 * 1024 * 1024"

definition GetPageSize :: "WAL \<Rightarrow> int" where
  "GetPageSize rc =
     (if PageSize rc \<le> 0 then 128 * 1024 * 1024
      else if PageSize rc \<ge> 1024 * 1024 * 1024 then 1024 * 1024 * 1024
      else PageSize rc)"

section \<open>KV table: the mmap SST reader\<close>

text \<open>
  Package table, \<^verbatim>\<open>newMMapStoreReader\<close>, \<^verbatim>\<open>storeMMapReader.initialize\<close>,
  \<^verbatim>\<open>storeMMapReader.Get\<close> and \<^verbatim>\<open>storeMMapReader.getBlock\<close>.

  A Go call either panics, returns a non-nil error or returns its value.
\<close>

type_synonym byte = "8 word"

datatype ('e, 'a) go_result = GoPanic | GoErr 'e | GoOk 'a

text \<open>
  Go slice expressions panic when the bounds are out of range; the mapped file has
  capacity equal to its length.
\<close>

definition slice_from :: "'a list \<Rightarrow> int \<Rightarrow> 'a list option" where
  "slice_from bs lo = (if 0 \<le> lo \<and> lo \<le> int (length bs) then Some (drop (nat lo) bs) else None)"

definition slice_range :: "'a list \<Rightarrow> int \<Rightarrow> int \<Rightarrow> 'a list option" where
  "slice_range bs lo hi =
     (if 0 \<le> lo \<and> lo \<le> hi \<and> hi \<le> int (length bs)
      then Some (take (nat (hi - lo)) (drop (nat lo) bs)) else None)"

text \<open>
  \<^verbatim>\<open>binary.LittleEndian.Uint32\<close> and \<^verbatim>\<open>Uint64\<close> read the first 4 (8) bytes of
  their argument, least significant byte first, and panic on a shorter slice.
\<close>

fun le_nat :: "byte list \<Rightarrow> nat" where
  "le_nat [] = 0"
| "le_nat (b # bs) = unat b + 256 * le_nat bs"

definition Uint32 :: "byte list \<Rightarrow> 32 word option" where
  "Uint32 b = (if length b < 4 then None else Some (of_nat (le_nat (take 4 b))))"

definition Uint64 :: "byte list \<Rightarrow> 64 word option" where
  "Uint64 b = (if length b < 8 then None else Some (of_nat (le_nat (take 8 b))))"

text \<open>
  The constants \<^verbatim>\<open>sstFileFooterSize\<close>, \<^verbatim>\<open>magicNumberAtFooter\<close> and
  \<^verbatim>\<open>magicNumberOffsetFile\<close> are declared in a file of package table that is not among
  the sources, so the reader takes them as parameters.
\<close>

record sst_layout =
  sstFileFooterSize :: int
  magicNumberAtFooter :: int
  magicNumberOffsetFile :: "64 word"

text \<open>
  \<^verbatim>\<open>encoding.FixedOffsetDecoder\<close> (its \<^verbatim>\<open>Unmarshal\<close>, \<^verbatim>\<open>Size\<close> and
  \<^verbatim>\<open>GetBlock\<close>) and \<^verbatim>\<open>encoding.BitmapUnmarshal\<close> belong to package encoding, which is
  not among the sources: they are parameters too. \<open>'d\<close> is the decoder, \<open>'e\<close> the errors
  of package encoding. A roaring bitmap is the finite set of the \<^verbatim>\<open>uint32\<close> keys it holds.
\<close>

record ('d, 'e) sst_codec =
  unmarshalFixedOffset :: "byte list \<Rightarrow> 'e + 'd"
  offsetsSize :: "'d \<Rightarrow> int"
  GetBlock :: "'d \<Rightarrow> int \<Rightarrow> byte list \<Rightarrow> 'e + byte list"
  BitmapUnmarshal :: "byte list \<Rightarrow> 'e + 32 word set"

text \<open>\<^verbatim>\<open>Bitmap.Contains\<close>, \<^verbatim>\<open>Bitmap.GetCardinality\<close> and \<^verbatim>\<open>Bitmap.Rank\<close> (the number
  of keys smaller than or equal to the argument).\<close>

definition Contains :: "32 word set \<Rightarrow> 32 word \<Rightarrow> bool" where
  "Contains ks k = (k \<in> ks)"

definition GetCardinality :: "32 word set \<Rightarrow> nat" where
  "GetCardinality ks = card ks"

definition Rank :: "32 word set \<Rightarrow> 32 word \<Rightarrow> nat" where
  "Rank ks k = card (Set.filter (\<lambda>x. x \<le> k) ks)"

text \<open>
  The errors a reader can return. Errors of package encoding are wrapped as they are
  (\<open>ErrDecoder\<close>, from \<^verbatim>\<open>GetBlock\<close>) or formatted into a new error
  (\<open>ErrUnmarshalOffsets\<close>, \<open>ErrUnmarshalKeys\<close>); package encoding cannot name
  \<^verbatim>\<open>table.ErrKeyNotExist\<close>, which package table declares.
\<close>

datatype 'e table_error =
    ErrKeyNotExist
  | ErrOpenFile
  | ErrMap
  | ErrTooShort
  | ErrMagicNumber
  | ErrBadFooter int int int
  | ErrUnmarshalOffsets 'e
  | ErrUnmarshalKeys 'e
  | ErrNumOfKeys
  | ErrDecoder 'e

record 'd storeMMapReader =
  path :: string
  fileName :: string
  keys :: "32 word set"
  offsets :: "'d option"
  fullBlock :: "byte list"
  entriesBlock :: "byte list"

text \<open>\<^verbatim>\<open>sort.IntsAreSorted\<close>: every element is at least its predecessor.\<close>

fun intsAreSorted :: "int list \<Rightarrow> bool" where
  "intsAreSorted (a # b # rest) = (a \<le> b \<and> intsAreSorted (b # rest))"
| "intsAreSorted _ = True"

definition initialize ::
  "sst_layout \<Rightarrow> ('d, 'e) sst_codec \<Rightarrow> 'd storeMMapReader
    \<Rightarrow> ('e table_error, 'd storeMMapReader) go_result" where
  "initialize L C r =
     (let footerStart = int (length (fullBlock r)) - sstFileFooterSize L in
      case slice_from (fullBlock r) (footerStart + magicNumberAtFooter L) of
        None \<Rightarrow> GoPanic
      | Some mb \<Rightarrow>
      (case Uint64 mb of
        None \<Rightarrow> GoPanic
      | Some magic \<Rightarrow>
      if magic \<noteq> magicNumberOffsetFile L then GoErr ErrMagicNumber
      else
      (case Option.bind (slice_range (fullBlock r) footerStart (footerStart + 4)) Uint32 of
        None \<Rightarrow> GoPanic
      | Some w1 \<Rightarrow>
      (case Option.bind (slice_range (fullBlock r) (footerStart + 4) (footerStart + 8)) Uint32 of
        None \<Rightarrow> GoPanic
      | Some w2 \<Rightarrow>
      let posOfOffset = uint w1; posOfKeys = uint w2 in
      if \<not> intsAreSorted [0, posOfOffset, posOfKeys, footerStart]
      then GoErr (ErrBadFooter posOfOffset posOfKeys footerStart)
      else
      (case slice_range (fullBlock r) posOfOffset posOfKeys of
        None \<Rightarrow> GoPanic
      | Some offsetsBlock \<Rightarrow>
      (case unmarshalFixedOffset C offsetsBlock of
        Inl e \<Rightarrow> GoErr (ErrUnmarshalOffsets e)
      | Inr d \<Rightarrow>
      (case slice_from (fullBlock r) posOfKeys of
        None \<Rightarrow> GoPanic
      | Some keysBlock \<Rightarrow>
      (case BitmapUnmarshal C keysBlock of
        Inl e \<Rightarrow> GoErr (ErrUnmarshalKeys e)
      | Inr ks \<Rightarrow>
      if offsetsSize C d \<noteq> int (GetCardinality ks) then GoErr ErrNumOfKeys
      else
      (case slice_range (fullBlock r) 0 posOfOffset of
        None \<Rightarrow> GoPanic
      | Some eb \<Rightarrow>
          GoOk (r\<lparr>offsets := Some d, keys := ks, entriesBlock := eb\<rparr>))))))))))"

text \<open>
  The file system: \<^verbatim>\<open>openFileFn\<close> fails, or \<^verbatim>\<open>mapFunc\<close> fails (possibly after
  mapping some bytes), or the file is mapped.
\<close>

datatype mapped_file = OpenFails | MapFails "byte list" | Mapped "byte list"

text \<open>
  The result of opening a reader, and whether the deferred function unmapped the data
  and closed the file (it does when an error is returned and mapped data exists; it also
  runs when the body panics, where \<^verbatim>\<open>err\<close> is still nil).
\<close>

record ('e, 'd) open_outcome =
  returned :: "('e table_error, 'd storeMMapReader) go_result"
  unmapped :: bool

definition newMMapStoreReader ::
  "sst_layout \<Rightarrow> ('d, 'e) sst_codec \<Rightarrow> (string \<Rightarrow> mapped_file) \<Rightarrow> string \<Rightarrow> string
    \<Rightarrow> ('e, 'd) open_outcome" where
  "newMMapStoreReader L C fs p fname =
     (case fs p of
        OpenFails \<Rightarrow> \<lparr>returned = GoErr ErrOpenFile, unmapped = False\<rparr>
      | MapFails data \<Rightarrow> \<lparr>returned = GoErr ErrMap, unmapped = (length data > 0)\<rparr>
      | Mapped data \<Rightarrow>
          if int (length data) < sstFileFooterSize L
          then \<lparr>returned = GoErr ErrTooShort, unmapped = (length data > 0)\<rparr>
          else
            (case initialize L C
                    \<lparr>path = p, fileName = fname, keys = {}, offsets = None,
                     fullBlock = data, entriesBlock = []\<rparr> of
               GoErr e \<Rightarrow> \<lparr>returned = GoErr e, unmapped = (length data > 0)\<rparr>
             | GoPanic \<Rightarrow> \<lparr>returned = GoPanic, unmapped = False\<rparr>
             | GoOk r \<Rightarrow> \<lparr>returned = GoOk r, unmapped = False\<rparr>))"

text \<open>
  \<^verbatim>\<open>getBlock\<close> and \<^verbatim>\<open>Get\<close>. A reader that was never initialised has a nil decoder,
  and calling \<^verbatim>\<open>GetBlock\<close> on it panics. The read statistics counters are not modelled.
\<close>

definition getBlock ::
  "('d, 'e) sst_codec \<Rightarrow> 'd storeMMapReader \<Rightarrow> int \<Rightarrow> ('e table_error, byte list) go_result" where
  "getBlock C r idx =
     (case offsets r of
        None \<Rightarrow> GoPanic
      | Some d \<Rightarrow>
          (case GetBlock C d idx (entriesBlock r) of
             Inl e \<Rightarrow> GoErr (ErrDecoder e)
           | Inr block \<Rightarrow> GoOk block))"

definition Get ::
  "('d, 'e) sst_codec \<Rightarrow> 'd storeMMapReader \<Rightarrow> 32 word \<Rightarrow> ('e table_error, byte list) go_result" where
  "Get C r key =
     (if \<not> Contains (keys r) key then GoErr ErrKeyNotExist
      else let idx = Rank (keys r) key in getBlock C r (int idx - 1))"

text \<open>
  Names for what \<^verbatim>\<open>initialize\<close> reads from the footer of the mapped bytes: where the
  footer starts, the magic number and the two positions. Each read is \<open>None\<close> where the
  Go slice expression or the little-endian read would panic.
\<close>

definition footerStartOf :: "sst_layout \<Rightarrow> byte list \<Rightarrow> int" where
  "footerStartOf L data = int (length data) - sstFileFooterSize L"

definition footerMagic :: "sst_layout \<Rightarrow> byte list \<Rightarrow> 64 word option" where
  "footerMagic L data =
     Option.bind (slice_from data (footerStartOf L data + magicNumberAtFooter L)) Uint64"

definition footerPosOfOffset :: "sst_layout \<Rightarrow> byte list \<Rightarrow> int option" where
  "footerPosOfOffset L data =
     map_option uint
       (Option.bind (slice_range data (footerStartOf L data) (footerStartOf L data + 4)) Uint32)"

definition footerPosOfKeys :: "sst_layout \<Rightarrow> byte list \<Rightarrow> int option" where
  "footerPosOfKeys L data =
     map_option uint
       (Option.bind (slice_range data (footerStartOf L data + 4) (footerStartOf L data + 8)) Uint32)"

subsection \<open>A concrete table file\<close>

text \<open>
  A layout with the footer of the file format description
  (\<^verbatim>\<open>pos_of_offsets(4) | pos_of_keys(4) | crc32(4) | magic(8)\<close>), and a toy codec in which
  the offsets block holds one byte per entry and the keys block is a count followed by
  one byte per key. The first file holds the keys 5 and 9.
\<close>

definition demo_layout :: sst_layout where
  "demo_layout = \<lparr>sstFileFooterSize = 20, magicNumberAtFooter = 12,
     magicNumberOffsetFile = 0x0807060504030201\<rparr>"

definition demo_codec :: "(nat list, unit) sst_codec" where
  "demo_codec =
     \<lparr>unmarshalFixedOffset = (\<lambda>bs. Inr (map unat bs)),
      offsetsSize = (\<lambda>d. int (length d)),
      GetBlock = (\<lambda>d i blk.
        if 0 \<le> i \<and> i < int (length d) then Inr (drop (d ! nat i) blk) else Inl ()),
      BitmapUnmarshal = (\<lambda>bs. case bs of [] \<Rightarrow> Inl () | n # rest \<Rightarrow>
        if length rest < unat n then Inl () else Inr (set (map ucast (take (unat n) rest))))\<rparr>"

definition demo_file :: "byte list" where
  "demo_file = [10, 11, 12] @ [0, 1] @ [2, 5, 9]
      @ [3, 0, 0, 0, 5, 0, 0, 0, 0, 0, 0, 0, 1, 2, 3, 4, 5, 6, 7, 8]"

definition demo_bad_magic :: "byte list" where
  "demo_bad_magic = [10, 11, 12] @ [0, 1] @ [2, 5, 9]
      @ [3, 0, 0, 0, 5, 0, 0, 0, 0, 0, 0, 0, 1, 2, 3, 4, 5, 6, 7, 9]"

definition demo_bad_footer :: "byte list" where
  "demo_bad_footer = [10, 11, 12] @ [0, 1] @ [2, 5, 9]
      @ [6, 0, 0, 0, 5, 0, 0, 0, 0, 0, 0, 0, 1, 2, 3, 4, 5, 6, 7, 8]"

definition demo_bad_count :: "byte list" where
  "demo_bad_count = [10, 11, 12] @ [0, 1] @ [1, 5, 9]
      @ [3, 0, 0, 0, 5, 0, 0, 0, 0, 0, 0, 0, 1, 2, 3, 4, 5, 6, 7, 8]"

definition demo_fs :: "string \<Rightarrow> mapped_file" where
  "demo_fs p = (if p = ''1.sst'' then Mapped demo_file
                else if p = ''2.sst'' then Mapped demo_bad_magic
                else if p = ''3.sst'' then Mapped [1, 2, 3]
                else if p = ''4.sst'' then Mapped demo_bad_footer
                else if p = ''5.sst'' then Mapped demo_bad_count
                else OpenFails)"

definition demo_reader :: "nat list storeMMapReader" where
  "demo_reader = \<lparr>path = ''1.sst'', fileName = ''1.sst'', keys = {5, 9}, offsets = Some [0, 1],
      fullBlock = demo_file, entriesBlock = [10, 11, 12]\<rparr>"

section \<open>Broker row converter: de-duplication of tags\<close>

text \<open>
  \<^verbatim>\<open>BrokerRowProtoConverter.deDupTags\<close> of package metric. A tag is a key/value pair of
  strings; Go compares strings byte by byte, which is the lexicographic order on
  \<open>char list\<close>.
\<close>

record KeyValue =
  Key :: string
  Value :: string

text \<open>
  The two-pointer loop over \<^verbatim>\<open>m.Tags\<close>, which the loop updates in place; it returns the
  slice and the final value of \<^verbatim>\<open>slow\<close>.
\<close>

function deDupLoop :: "KeyValue list \<Rightarrow> nat \<Rightarrow> nat \<Rightarrow> KeyValue list \<times> nat" where
  "deDupLoop tags slow high =
     (if high < length tags then
        let slow' = (if Key (tags ! slow) \<noteq> Key (tags ! high) then slow + 1 else slow)
        in deDupLoop (tags[slow' := tags ! high]) slow' (high + 1)
      else (tags, slow))"
  by pat_completeness auto
termination
  by (relation "measure (\<lambda>(tags, slow, high). length tags - high)") auto

declare deDupLoop.simps [simp del]

text \<open>
  \<^verbatim>\<open>sort.Sort(kvs)\<close> sorts the same backing array through \<^verbatim>\<open>tag.KeyValues\<close>, whose
  \<^verbatim>\<open>Less\<close> (package tag, not among the sources) compares keys. The standard library's
  \<^verbatim>\<open>sort.Sort\<close> promises a sorted permutation and no order among equal keys, so the sort
  is a parameter.
\<close>

definition deDupTags :: "(KeyValue list \<Rightarrow> KeyValue list) \<Rightarrow> KeyValue list \<Rightarrow> KeyValue list" where
  "deDupTags sortKVs tags =
     (if length tags < 2 then tags
      else case deDupLoop (sortKVs tags) 0 1 of (tags', slow) \<Rightarrow> take (slow + 1) tags')"

text \<open>
  What the loop computes, as a function on lists: of each run of neighbours with the same
  key, the last one.
\<close>

fun keepLast :: "KeyValue list \<Rightarrow> KeyValue list" where
  "keepLast (x # y # rest) =
     (if Key x = Key y then keepLast (y # rest) else x # keepLast (y # rest))"
| "keepLast xs = xs"

text \<open>A metric whose client-supplied \<open>host\<close> tag is followed by an appended one.\<close>

definition demo_tags :: "KeyValue list" where
  "demo_tags = [\<lparr>Key = ''host'', Value = ''client''\<rparr>, \<lparr>Key = ''region'', Value = ''eu''\<rparr>,
                \<lparr>Key = ''app'', Value = ''db''\<rparr>, \<lparr>Key = ''host'', Value = ''enriched''\<rparr>]"

text \<open>
  Thirteen tags: twelve client-supplied tags in ascending key order, followed by an
  appended tag for the key \<open>a\<close> that the client also supplied.
\<close>

definition demo_tags13 :: "KeyValue list" where
  "demo_tags13 =
     [\<lparr>Key = ''a'', Value = ''client''\<rparr>, \<lparr>Key = ''b'', Value = ''v''\<rparr>,
      \<lparr>Key = ''c'', Value = ''v''\<rparr>, \<lparr>Key = ''d'', Value = ''v''\<rparr>,
      \<lparr>Key = ''e'', Value = ''v''\<rparr>, \<lparr>Key = ''f'', Value = ''v''\<rparr>,
      \<lparr>Key = ''g'', Value = ''v''\<rparr>, \<lparr>Key = ''h'', Value = ''v''\<rparr>,
      \<lparr>Key = ''i'', Value = ''v''\<rparr>, \<lparr>Key = ''j'', Value = ''v''\<rparr>,
      \<lparr>Key = ''k'', Value = ''v''\<rparr>, \<lparr>Key = ''l'', Value = ''v''\<rparr>,
      \<lparr>Key = ''a'', Value = ''enriched''\<rparr>]"

text \<open>
  \<^verbatim>\<open>sort.Sort\<close> is not stable: it sorts by insertion only up to twelve elements and is a
  pattern-defeating quicksort above. It touches the tags through \<^verbatim>\<open>Less\<close> and \<^verbatim>\<open>Swap\<close> of
  \<^verbatim>\<open>tag.KeyValues\<close> alone. On thirteen tags whose keys are ordered as in \<open>demo_tags13\<close> it
  takes the median of positions 3, 6 and 9 as the pivot (position 6; the scan for a sorted
  slice stops at position 12), and partitions around it with \<^verbatim>\<open>Swap(0, 6)\<close>,
  \<^verbatim>\<open>Swap(7, 12)\<close> and \<^verbatim>\<open>Swap(7, 0)\<close>, which carries the appended tag to position 0; then it
  sorts positions 8 to 12 and positions 0 to 6 by insertion, which moves the tag at
  position 12 down to 8 and the client's tag for \<open>a\<close> from position 6 down to 1: an
  insertion stops at an equal key. \<open>Sort13\<close> applies these swaps; \<open>demo_sorted13\<close> is
  the resulting order.
\<close>

definition Swap :: "KeyValue list \<Rightarrow> nat \<Rightarrow> nat \<Rightarrow> KeyValue list" where
  "Swap kvs i j = kvs[i := kvs ! j, j := kvs ! i]"

definition sortSwaps13 :: "(nat \<times> nat) list" where
  "sortSwaps13 = [(0, 6), (7, 12), (7, 0),
                  (12, 11), (11, 10), (10, 9), (9, 8),
                  (6, 5), (5, 4), (4, 3), (3, 2), (2, 1)]"

definition Sort13 :: "KeyValue list \<Rightarrow> KeyValue list" where
  "Sort13 kvs = foldl (\<lambda>kvs (i, j). Swap kvs i j) kvs sortSwaps13"

definition demo_sorted13 :: "KeyValue list" where
  "demo_sorted13 =
     [\<lparr>Key = ''a'', Value = ''enriched''\<rparr>, \<lparr>Key = ''a'', Value = ''client''\<rparr>,
      \<lparr>Key = ''b'', Value = ''v''\<rparr>,
      \<lparr>Key = ''c'', Value = ''v''\<rparr>, \<lparr>Key = ''d'', Value = ''v''\<rparr>,
      \<lparr>Key = ''e'', Value = ''v''\<rparr>, \<lparr>Key = ''f'', Value = ''v''\<rparr>,
      \<lparr>Key = ''g'', Value = ''v''\<rparr>, \<lparr>Key = ''h'', Value = ''v''\<rparr>,
      \<lparr>Key = ''i'', Value = ''v''\<rparr>, \<lparr>Key = ''j'', Value = ''v''\<rparr>,
      \<lparr>Key = ''k'', Value = ''v''\<rparr>, \<lparr>Key = ''l'', Value = ''v''\<rparr>]"

section \<open>Replication: the local replicator\<close>

text \<open>
  \<^verbatim>\<open>localReplicator.Replica\<close> of package replica and \<^verbatim>\<open>StorageBatchRows\<close> of package
  metric. A call that panics still leaves a state behind (deferred functions have run), so
  the outcome of a call carries the state either way.
\<close>

datatype 'a partial = Done 'a | Panicked 'a

fun state_of :: "'a partial \<Rightarrow> 'a" where
  "state_of (Done s) = s"
| "state_of (Panicked s) = s"

fun panicked :: "'a partial \<Rightarrow> bool" where
  "panicked (Done s) = False"
| "panicked (Panicked s) = True"

subsection \<open>The reusable batch of rows\<close>

text \<open>
  A \<^verbatim>\<open>StorageRow\<close> is the flat-buffer bytes it was unmarshalled from; its other fields
  are reset by \<^verbatim>\<open>Unmarshal\<close> and play no part here.
\<close>

type_synonym StorageRow = "byte list"

record StorageBatchRows =
  rows :: "StorageRow list"
  appendIndex :: nat

definition NewStorageBatchRows :: StorageBatchRows where
  "NewStorageBatchRows = \<lparr>rows = [], appendIndex = 0\<rparr>"

definition Len :: "StorageBatchRows \<Rightarrow> nat" where
  "Len br = appendIndex br"

text \<open>\<^verbatim>\<open>Rows\<close> is \<^verbatim>\<open>br.rows[:br.Len()]\<close>.\<close>

definition Rows :: "StorageBatchRows \<Rightarrow> StorageRow list" where
  "Rows br = take (Len br) (rows br)"

text \<open>
  \<^verbatim>\<open>append\<close>: \<^verbatim>\<open>StorageRow.Unmarshal\<close> reads the root offset with
  \<^verbatim>\<open>flatbuffers.GetUOffsetT\<close>, which panics on fewer than four bytes; the deferred
  increment of \<^verbatim>\<open>appendIndex\<close> runs in every case.
\<close>

definition batch_append :: "StorageBatchRows \<Rightarrow> byte list \<Rightarrow> StorageBatchRows partial" where
  "batch_append br data =
     (if length data < 4 then Panicked (br\<lparr>appendIndex := appendIndex br + 1\<rparr>)
      else if appendIndex br < length (rows br)
      then Done (br\<lparr>rows := (rows br)[appendIndex br := data],
                     appendIndex := appendIndex br + 1\<rparr>)
      else Done (br\<lparr>rows := rows br @ [data], appendIndex := appendIndex br + 1\<rparr>))"

text \<open>
  The loop of \<^verbatim>\<open>UnmarshalRows\<close>. \<^verbatim>\<open>flatbuffers.GetSizePrefix\<close> reads a little-endian
  \<^verbatim>\<open>uint32\<close>; \<^verbatim>\<open>SizeUOffsetT+size\<close> is \<^verbatim>\<open>uint32\<close> arithmetic and wraps. A Go slice has a
  capacity beyond its length: \<open>spare\<close> are the bytes of the block's backing array after its
  last element. The slice expression \<^verbatim>\<open>rowsBlock[4 : 4+size]\<close> is bounded by the capacity, so
  a row may reach into the spare bytes; reading the size prefix and the re-slice
  \<^verbatim>\<open>rowsBlock[4+size:]\<close> are bounded by the length.
\<close>

function UnmarshalRows_loop ::
  "StorageBatchRows \<Rightarrow> byte list \<Rightarrow> byte list \<Rightarrow> StorageBatchRows partial" where
  "UnmarshalRows_loop br rowsBlock spare =
     (if length rowsBlock > 0 then
        (case Uint32 rowsBlock of
           None \<Rightarrow> Panicked br
         | Some sz \<Rightarrow>
             (case slice_range (rowsBlock @ spare) 4 (uint (4 + sz)) of
                None \<Rightarrow> Panicked br
              | Some data \<Rightarrow>
                  (case batch_append br data of
                     Panicked br' \<Rightarrow> Panicked br'
                   | Done br' \<Rightarrow>
                       (case slice_from rowsBlock (uint (4 + sz)) of
                          None \<Rightarrow> Panicked br'
                        | Some rest \<Rightarrow> UnmarshalRows_loop br' rest spare))))
      else Done br)"
  by pat_completeness auto
termination
proof (relation "measure (\<lambda>(br, rowsBlock, spare). length rowsBlock)")
  show "wf (measure (\<lambda>(br, rowsBlock, spare). length rowsBlock))" by simp
next
  fix br :: StorageBatchRows and rowsBlock spare :: "byte list" and sz :: "32 word"
    and data br' rest
  assume "0 < length rowsBlock"
    and "slice_range (rowsBlock @ spare) 4 (uint (4 + sz)) = Some data"
    and "slice_from rowsBlock (uint (4 + sz)) = Some rest"
  then have "4 \<le> uint (4 + sz)" "rest = drop (unat (4 + sz)) rowsBlock"
    by (auto simp: slice_range_def slice_from_def split: if_splits)
  moreover from this have "4 + sz \<noteq> 0" by auto
  ultimately have "length rest = length rowsBlock - unat (4 + sz)" "0 < unat (4 + sz)"
    by (simp_all add: unat_gt_0)
  then show "((br', rest, spare), (br, rowsBlock, spare))
      \<in> measure (\<lambda>(br, rowsBlock, spare). length rowsBlock)"
    using \<open>0 < length rowsBlock\<close> by simp
qed

declare UnmarshalRows_loop.simps [simp del]

definition UnmarshalRows ::
  "StorageBatchRows \<Rightarrow> byte list \<Rightarrow> byte list \<Rightarrow> StorageBatchRows partial" where
  "UnmarshalRows br rowsBlock spare = UnmarshalRows_loop (br\<lparr>appendIndex := 0\<rparr>) rowsBlock spare"

text \<open>
  The rows of a block as a list, in the order of the block: each row is preceded by its
  length. \<open>None\<close> where the block is not a sequence of such frames, each of at least four
  bytes and short enough for its end to be a \<^verbatim>\<open>uint32\<close>.
\<close>

function frames :: "byte list \<Rightarrow> StorageRow list option" where
  "frames block =
     (if block = [] then Some []
      else case Uint32 block of
        None \<Rightarrow> None
      | Some sz \<Rightarrow>
          if unat sz < 4 \<or> 2 ^ 32 \<le> 4 + unat sz \<or> length block < 4 + unat sz then None
          else map_option ((#) (take (unat sz) (drop 4 block)))
                 (frames (drop (4 + unat sz) block)))"
  by pat_completeness auto
termination
  by (relation "measure length") (auto simp: Uint32_def split: if_splits)

declare frames.simps [simp del]

subsection \<open>The data family\<close>

text \<open>
  Modelled from the spec: \<^verbatim>\<open>tsdb.DataFamily\<close> (package tsdb) is not among the sources.
  The family tracks a replica sequence per leader: \<^verbatim>\<open>ValidateSequence(leader, seq)\<close> is
  true iff \<open>seq = replica_seq(leader) + 1\<close>, and \<^verbatim>\<open>CommitSequence(leader, seq)\<close> advances
  \<open>replica_seq(leader)\<close> unconditionally. The model also records every call of
  \<^verbatim>\<open>CommitSequence\<close> and every batch handed to \<^verbatim>\<open>WriteRows\<close>, in order.
\<close>

record DataFamily =
  replicaSeq :: "int \<Rightarrow> int"
  commitCalls :: "(int \<times> int) list"
  writeCalls :: "StorageRow list list"

definition ValidateSequence :: "DataFamily \<Rightarrow> int \<Rightarrow> int \<Rightarrow> bool" where
  "ValidateSequence f ldr seq = (seq = replicaSeq f ldr + 1)"

definition CommitSequence :: "DataFamily \<Rightarrow> int \<Rightarrow> int \<Rightarrow> DataFamily" where
  "CommitSequence f ldr seq =
     f\<lparr>replicaSeq := (replicaSeq f)(ldr := seq), commitCalls := commitCalls f @ [(ldr, seq)]\<rparr>"

text \<open>
  What a call of \<^verbatim>\<open>WriteRows\<close> does is decided outside the replicator: it returns nil or
  an error, or panics on rows that are not well-formed flat buffers.
\<close>

datatype write_result = WriteOk | WriteErr | WritePanic

definition WriteRows ::
  "(StorageRow list \<Rightarrow> write_result) \<Rightarrow> DataFamily \<Rightarrow> StorageRow list
    \<Rightarrow> write_result \<times> DataFamily" where
  "WriteRows wr f rs = (wr rs, f\<lparr>writeCalls := writeCalls f @ [rs]\<rparr>)"

subsection \<open>Replica\<close>

record StorageLocalReplicatorStatistics =
  InvalidSequence :: nat
  DecompressFailures :: nat
  ReplicaFailures :: nat
  ReplicaRows :: nat

text \<open>
  The replicator: its leader, family, batch and statistics, and the sequences passed to
  \<^verbatim>\<open>IgnoreMessage\<close> (a method of the embedded \<^verbatim>\<open>replicator\<close>, which is not among the
  sources; the model records the calls).
\<close>

record localReplicator =
  leader :: int
  family :: DataFamily
  batchRows :: StorageBatchRows
  statistics :: StorageLocalReplicatorStatistics
  ignoredMessages :: "int list"

text \<open>
  The environment of a call: the Snappy reader (\<open>Inl\<close> is a decompression error), the
  spare bytes behind the block that it returns for a message (its capacity beyond its
  length), and the outcome of \<^verbatim>\<open>WriteRows\<close>.
\<close>

record 'e replica_env =
  Uncompress :: "byte list \<Rightarrow> 'e + byte list"
  spareCapacity :: "byte list \<Rightarrow> byte list"
  writeOutcome :: "StorageRow list \<Rightarrow> write_result"

text \<open>
  The deferred function of \<^verbatim>\<open>Replica\<close>; its argument is whether the function's variable
  \<^verbatim>\<open>err\<close> is non-nil when it runs.
\<close>

definition Replica_deferred :: "bool \<Rightarrow> int \<Rightarrow> localReplicator \<Rightarrow> localReplicator" where
  "Replica_deferred errSet sequence r =
     (let r1 = (if errSet then r\<lparr>ignoredMessages := ignoredMessages r @ [sequence]\<rparr> else r)
      in r1\<lparr>family := CommitSequence (family r1) (leader r1) sequence\<rparr>)"

text \<open>
  \<^verbatim>\<open>Replica\<close>. The error of \<^verbatim>\<open>WriteRows\<close> is bound by the \<^verbatim>\<open>if err := ...\<close> statement
  to a new variable, so the function's \<^verbatim>\<open>err\<close> is still nil when the deferred function
  runs after a failed write.
\<close>

definition Replica ::
  "'e replica_env \<Rightarrow> localReplicator \<Rightarrow> int \<Rightarrow> byte list \<Rightarrow> localReplicator partial" where
  "Replica E r sequence msg =
     (if \<not> ValidateSequence (family r) (leader r) sequence
      then Done (r\<lparr>statistics := (statistics r)\<lparr>InvalidSequence :=
                       InvalidSequence (statistics r) + 1\<rparr>\<rparr>)
      else
        (case Uncompress E msg of
           Inl err \<Rightarrow>
             Done (Replica_deferred True sequence
                     (r\<lparr>statistics := (statistics r)\<lparr>DecompressFailures :=
                          DecompressFailures (statistics r) + 1\<rparr>\<rparr>))
         | Inr block \<Rightarrow>
             (case UnmarshalRows (batchRows r) block (spareCapacity E msg) of
                Panicked br \<Rightarrow> Panicked (Replica_deferred False sequence (r\<lparr>batchRows := br\<rparr>))
              | Done br \<Rightarrow>
                  let r1 = r\<lparr>batchRows := br\<rparr>; rowsLen = Len br in
                  if rowsLen = 0 then Done (Replica_deferred False sequence r1)
                  else
                    (case WriteRows (writeOutcome E) (family r1) (Rows br) of
                       (WritePanic, f) \<Rightarrow>
                         Panicked (Replica_deferred False sequence (r1\<lparr>family := f\<rparr>))
                     | (WriteErr, f) \<Rightarrow>
                         Done (Replica_deferred False sequence
                           (r1\<lparr>family := f, statistics := (statistics r1)\<lparr>ReplicaFailures :=
                                ReplicaFailures (statistics r1) + 1\<rparr>\<rparr>))
                     | (WriteOk, f) \<Rightarrow>
                         Done (Replica_deferred False sequence
                           (r1\<lparr>family := f, statistics := (statistics r1)\<lparr>ReplicaRows :=
                                ReplicaRows (statistics r1) + rowsLen\<rparr>\<rparr>))))))"

subsection \<open>A concrete replicator\<close>

text \<open>
  Two rows of twelve bytes. \<^verbatim>\<open>StorageRow.Timestamp\<close> reads a field of the flat buffer
  through generated code that is not among the sources; \<open>demo_Timestamp\<close> stands in for it
  and reads the eight bytes after the root offset, so that the first row has timestamp 2
  and the second timestamp 1. The environment fails to decompress the empty message,
  returns every block with four spare bytes behind it, and fails to write a batch of one
  row.
\<close>

definition demo_rowA :: StorageRow where
  "demo_rowA = [12, 0, 0, 0, 2, 0, 0, 0, 0, 0, 0, 0]"

definition demo_rowB :: StorageRow where
  "demo_rowB = [12, 0, 0, 0, 1, 0, 0, 0, 0, 0, 0, 0]"

definition demo_Timestamp :: "StorageRow \<Rightarrow> int" where
  "demo_Timestamp row = int (le_nat (take 8 (drop 4 row)))"

definition demo_block :: "byte list" where
  "demo_block = [12, 0, 0, 0] @ demo_rowA @ [12, 0, 0, 0] @ demo_rowB"

definition demo_env :: "unit replica_env" where
  "demo_env = \<lparr>Uncompress = (\<lambda>msg. if msg = [] then Inl () else Inr msg),
                spareCapacity = (\<lambda>msg. [0, 0, 0, 0]),
                writeOutcome = (\<lambda>rs. if length rs = 1 then WriteErr else WriteOk)\<rparr>"

definition demo_replicator :: localReplicator where
  "demo_replicator =
     \<lparr>leader = 1,
      family = \<lparr>replicaSeq = (\<lambda>ldr. 6), commitCalls = [], writeCalls = []\<rparr>,
      batchRows = NewStorageBatchRows,
      statistics = \<lparr>InvalidSequence = 0, DecompressFailures = 0, ReplicaFailures = 0,
                     ReplicaRows = 0\<rparr>,
      ignoredMessages = []\<rparr>"

definition demo_block1 :: "byte list" where
  "demo_block1 = [12, 0, 0, 0] @ demo_rowA"

section \<open>Aggregation: the field aggregator\<close>

text \<open>
  \<^verbatim>\<open>fieldAggregator.AggregateBySlot\<close> of package aggregation. Values are \<^verbatim>\<open>float64\<close>;
  the aggregator only tests them for positive infinity, stores them and hands them to
  \<^verbatim>\<open>AggType.Aggregate\<close>, so the type of values \<open>'v\<close> and the floating-point operations
  are parameters: \<^verbatim>\<open>math.IsInf(v, 1)\<close>, addition, \<^verbatim>\<open>math.Min\<close>, \<^verbatim>\<open>math.Max\<close>, and
  the values zero and one.
\<close>

record 'v float_ops =
  IsPosInf :: "'v \<Rightarrow> bool"
  fadd :: "'v \<Rightarrow> 'v \<Rightarrow> 'v"
  fmin :: "'v \<Rightarrow> 'v \<Rightarrow> 'v"
  fmax :: "'v \<Rightarrow> 'v \<Rightarrow> 'v"
  fzero :: 'v
  fone :: 'v

text \<open>
  Modelled from the spec: \<^verbatim>\<open>field.AggType\<close> and its \<^verbatim>\<open>Aggregate\<close> (package field) are
  not among the sources. The combinators are: \<open>Sum\<close> adds, \<open>Min'\<close> takes the minimum, \<open>Max'\<close>
  the maximum, \<open>First\<close> keeps the first value, \<open>Last\<close> keeps the last, \<open>Count\<close>
  increments. The source's \<^verbatim>\<open>Min\<close> and \<^verbatim>\<open>Max\<close> are written \<open>Min'\<close> and \<open>Max'\<close>.
\<close>

datatype AggType = Sum | Min' | Max' | First | Last | Count

fun Aggregate :: "'v float_ops \<Rightarrow> AggType \<Rightarrow> 'v \<Rightarrow> 'v \<Rightarrow> 'v" where
  "Aggregate ops Sum a b = fadd ops a b"
| "Aggregate ops Min' a b = fmin ops a b"
| "Aggregate ops Max' a b = fmax ops a b"
| "Aggregate ops First a b = a"
| "Aggregate ops Last a b = b"
| "Aggregate ops Count a b = fadd ops a (fone ops)"

text \<open>
  Modelled from the spec: \<^verbatim>\<open>collections.FloatArray\<close> (package collections) is not among
  the sources. The aggregator has a target slot range \<open>[start, end]\<close> and allocates an
  array of \<open>end - start + 1\<close> positions, each empty or holding a value. The model takes a
  position outside the array to hold no value and a write to it to change nothing (the
  aggregator's own comment on its \<^verbatim>\<open>HasValue\<close> test is "slot too large for last family").
\<close>

type_synonym 'v FloatArray = "'v option list"

definition NewFloatArray :: "int \<Rightarrow> 'v FloatArray" where
  "NewFloatArray capacity = replicate (nat capacity) None"

definition checkPos :: "'v FloatArray \<Rightarrow> int \<Rightarrow> bool" where
  "checkPos fa pos = (0 \<le> pos \<and> pos < int (length fa))"

definition HasValue :: "'v FloatArray \<Rightarrow> int \<Rightarrow> bool" where
  "HasValue fa pos = (checkPos fa pos \<and> fa ! nat pos \<noteq> None)"

definition GetValue :: "'v float_ops \<Rightarrow> 'v FloatArray \<Rightarrow> int \<Rightarrow> 'v" where
  "GetValue ops fa pos =
     (if checkPos fa pos then (case fa ! nat pos of Some v \<Rightarrow> v | None \<Rightarrow> fzero ops)
      else fzero ops)"

definition SetValue :: "'v FloatArray \<Rightarrow> int \<Rightarrow> 'v \<Rightarrow> 'v FloatArray" where
  "SetValue fa pos v = (if checkPos fa pos then fa[nat pos := Some v] else fa)"

text \<open>
  The aggregator. An entry of \<^verbatim>\<open>fieldSeriesList\<close> is a pointer to an array, nil (\<open>None\<close>)
  until the first value arrives. The field \<^verbatim>\<open>end\<close> is written \<open>end'\<close>.
\<close>

record 'v fieldAggregator =
  aggTypes :: "AggType list"
  segmentStartTime :: int
  start :: int
  end' :: int
  fieldSeriesList :: "'v FloatArray option list"

text \<open>
  One iteration of the loop over \<^verbatim>\<open>a.aggTypes\<close>: the new array at index \<open>idx\<close>. In the
  source the non-nil array is updated through its pointer.
\<close>

definition aggregateInto ::
  "'v float_ops \<Rightarrow> 'v fieldAggregator \<Rightarrow> AggType \<Rightarrow> 'v FloatArray option \<Rightarrow> int \<Rightarrow> 'v
    \<Rightarrow> 'v FloatArray" where
  "aggregateInto ops a aggType values pos val =
     (case values of
        None \<Rightarrow> SetValue (NewFloatArray (end' a - start a + 1)) pos val
      | Some vs \<Rightarrow>
          if HasValue vs pos
          then SetValue vs pos (Aggregate ops aggType (GetValue ops vs pos) val)
          else SetValue vs pos val)"

text \<open>
  The loop \<^verbatim>\<open>for idx, aggType := range a.aggTypes\<close>; indexing \<^verbatim>\<open>fieldSeriesList\<close> beyond
  its length panics.
\<close>

fun AggregateBySlot_loop ::
  "'v float_ops \<Rightarrow> 'v fieldAggregator \<Rightarrow> int \<Rightarrow> 'v \<Rightarrow> nat \<Rightarrow> AggType list
    \<Rightarrow> 'v fieldAggregator partial" where
  "AggregateBySlot_loop ops a pos val idx [] = Done a"
| "AggregateBySlot_loop ops a pos val idx (aggType # rest) =
     (if length (fieldSeriesList a) \<le> idx then Panicked a
      else
        let values = aggregateInto ops a aggType (fieldSeriesList a ! idx) pos val
        in AggregateBySlot_loop ops
             (a\<lparr>fieldSeriesList := (fieldSeriesList a)[idx := Some values]\<rparr>)
             pos val (idx + 1) rest)"

definition AggregateBySlot ::
  "'v float_ops \<Rightarrow> 'v fieldAggregator \<Rightarrow> int \<Rightarrow> 'v \<Rightarrow> 'v fieldAggregator partial" where
  "AggregateBySlot ops a slot val =
     (if IsPosInf ops val then Done a
      else let pos = slot - start a
           in AggregateBySlot_loop ops a pos val 0 (aggTypes a))"

text \<open>
  The value a (possibly nil) array holds at a position, if any: this is what \<^verbatim>\<open>HasValue\<close>
  and \<^verbatim>\<open>GetValue\<close> observe.
\<close>

definition stored :: "'v FloatArray option \<Rightarrow> int \<Rightarrow> 'v option" where
  "stored values pos =
     (case values of
        None \<Rightarrow> None
      | Some vs \<Rightarrow> if checkPos vs pos then vs ! nat pos else None)"

subsection \<open>A concrete aggregator\<close>

text \<open>
  Values are extended natural numbers, with \<open>\<infinity>\<close> for positive infinity. The aggregator
  covers the slots 10 to 12 with a \<open>Sum\<close> and a \<open>Max'\<close> series; the \<open>Sum\<close> series holds 5 at
  slot 11 and the \<open>Max'\<close> series is not allocated yet.
\<close>

definition demo_ops :: "enat float_ops" where
  "demo_ops = \<lparr>IsPosInf = (\<lambda>v. v = \<infinity>), fadd = (+), fmin = min, fmax = max,
                fzero = 0, fone = 1\<rparr>"

definition demo_agg :: "enat fieldAggregator" where
  "demo_agg = \<lparr>aggTypes = [Sum, Max'], segmentStartTime = 0, start = 10, end' = 12,
                fieldSeriesList = [Some [None, Some 5, None], None]\<rparr>"

section \<open>KV store: the compaction job\<close>

text \<open>
  \<^verbatim>\<open>compactJob\<close> of package kv: \<^verbatim>\<open>Run\<close>, \<^verbatim>\<open>moveCompaction\<close>, \<^verbatim>\<open>mergeCompaction\<close>,
  \<^verbatim>\<open>doMerge\<close>, \<^verbatim>\<open>installCompactionResults\<close>, \<^verbatim>\<open>makeInputIterator\<close>,
  \<^verbatim>\<open>openCompactionOutputFile\<close>, \<^verbatim>\<open>finishCompactionOutputFile\<close>, \<^verbatim>\<open>cleanupCompaction\<close>
  and the \<^verbatim>\<open>compactFlusher\<close>. The job works on a \<^verbatim>\<open>version.Compaction\<close>, a
  \<^verbatim>\<open>compactionState\<close>, a \<^verbatim>\<open>Family\<close>, a \<^verbatim>\<open>table.Builder\<close> and a \<^verbatim>\<open>version.Snapshot\<close>,
  none of which is among the sources; each is modelled below from the specification.
  Metrics and logging are left out.
\<close>

subsection \<open>File metadata, edit log and compaction\<close>

text \<open>
  Modelled from the spec: \<^verbatim>\<open>version.FileMeta\<close> is
  \<^verbatim>\<open>FileMeta{file_number, min_key, max_key, size}\<close>; an edit log is a list of records that
  delete a file number from a level or add a \<^verbatim>\<open>FileMeta\<close> to a level.
\<close>

record FileMeta =
  fileNumber :: int
  minKey :: "32 word"
  maxKey :: "32 word"
  fileSize :: int

datatype Log = LogDeleteFile int int | LogNewFile int FileMeta

text \<open>
  Modelled from the spec: \<^verbatim>\<open>version.Compaction\<close> holds the level picked, the input files
  of that level and the overlapping files of the next level, and collects an edit log. A
  trivial move is a compaction whose source has one file and no overlap in the next level.
  \<^verbatim>\<open>MarkInputDeletes\<close> marks every input file for deletion at its level.
\<close>

record Compaction =
  level :: int
  levelInputs :: "FileMeta list"
  levelUpInputs :: "FileMeta list"
  editLog :: "Log list"

definition IsTrivialMove :: "Compaction \<Rightarrow> bool" where
  "IsTrivialMove c = (length (levelInputs c) = 1 \<and> levelUpInputs c = [])"

definition GetInputs :: "Compaction \<Rightarrow> FileMeta list list" where
  "GetInputs c = [levelInputs c, levelUpInputs c]"

definition DeleteFile :: "Compaction \<Rightarrow> int \<Rightarrow> int \<Rightarrow> Compaction" where
  "DeleteFile c lvl num = c\<lparr>editLog := editLog c @ [LogDeleteFile lvl num]\<rparr>"

definition AddFile :: "Compaction \<Rightarrow> int \<Rightarrow> FileMeta \<Rightarrow> Compaction" where
  "AddFile c lvl f = c\<lparr>editLog := editLog c @ [LogNewFile lvl f]\<rparr>"

definition MarkInputDeletes :: "Compaction \<Rightarrow> Compaction" where
  "MarkInputDeletes c =
     c\<lparr>editLog := editLog c
          @ map (\<lambda>f. LogDeleteFile (level c) (fileNumber f)) (levelInputs c)
          @ map (\<lambda>f. LogDeleteFile (level c + 1) (fileNumber f)) (levelUpInputs c)\<rparr>"

text \<open>
  Modelled from the spec: a version is, per level, a list of \<^verbatim>\<open>FileMeta\<close>; committing an
  edit log applies its records in order.
\<close>

type_synonym Version = "int \<Rightarrow> FileMeta list"

fun applyLog :: "Version \<Rightarrow> Log \<Rightarrow> Version" where
  "applyLog v (LogDeleteFile lvl num) = v(lvl := filter (\<lambda>f. fileNumber f \<noteq> num) (v lvl))"
| "applyLog v (LogNewFile lvl f) = v(lvl := v lvl @ [f])"

subsection \<open>Table builder\<close>

text \<open>
  Modelled from the spec: \<^verbatim>\<open>table.Builder\<close> writes one SST file: keys are added in
  ascending order (a violation is an error). The builder is its file number and the
  entries added so far. Whether writing an entry or \<^verbatim>\<open>Close\<close> fails, and how many bytes a
  builder has written, is decided by the environment. A failure of \<^verbatim>\<open>Abandon\<close> is only
  logged by the job.
\<close>

record Builder =
  builderFileNumber :: int
  entries :: "(32 word \<times> byte list) list"

datatype compact_error =
    ErrNewMerger
  | ErrGetReader int
  | ErrNewTableBuilder
  | ErrBuilderAdd
  | ErrStoreBuildNil
  | ErrCloseBuilder
  | ErrMerger string

definition builder_Add ::
  "(int \<Rightarrow> 32 word \<Rightarrow> bool) \<Rightarrow> Builder \<Rightarrow> 32 word \<Rightarrow> byte list \<Rightarrow> compact_error + Builder" where
  "builder_Add writeFails b key val =
     (if entries b \<noteq> [] \<and> key \<le> fst (last (entries b)) then Inl ErrBuilderAdd
      else if writeFails (builderFileNumber b) key then Inl ErrBuilderAdd
      else Inr (b\<lparr>entries := entries b @ [(key, val)]\<rparr>))"

subsection \<open>Merger\<close>

text \<open>
  \<^verbatim>\<open>NewMerger\<close> and \<^verbatim>\<open>Merger.Merge\<close> are supplied by the user of the store. What they
  can do to the job goes through the \<^verbatim>\<open>Flusher\<close> that \<^verbatim>\<open>doMerge\<close> hands to
  \<^verbatim>\<open>NewMerger\<close>: call \<^verbatim>\<open>Add\<close>; ask for the \<^verbatim>\<open>StreamWriter\<close>; write an entry through
  that writer and \<^verbatim>\<open>Commit\<close> it; call \<^verbatim>\<open>Sequence\<close>, \<^verbatim>\<open>Commit\<close> or \<^verbatim>\<open>Release\<close> of the
  flusher; see each result, and go on or return. The creation of the merger and every
  merge is a program of such calls.
\<close>

datatype merge_prog =
    Return "compact_error option"
  | FlusherAdd "32 word" "byte list" "compact_error option \<Rightarrow> merge_prog"
  | FlusherStreamWriter "compact_error option \<Rightarrow> merge_prog"
  | StreamWriterCommit "32 word" "byte list" "compact_error option \<Rightarrow> merge_prog"
  | FlusherSequence merge_prog
  | FlusherCommit
  | FlusherRelease

subsection \<open>The job and its environment\<close>

text \<open>
  The environment of a job: the program of \<^verbatim>\<open>NewMerger\<close> (it returns the error, if any)
  and of each \<^verbatim>\<open>Merge\<close>, the entries of the input files that have a reader, and what
  decides the builder's failures and sizes.
\<close>

record compact_env =
  newMergerOf :: merge_prog
  readerOf :: "int \<Rightarrow> (32 word \<times> byte list) list option"
  mergeOf :: "32 word \<Rightarrow> byte list list \<Rightarrow> merge_prog"
  newTableBuilderFails :: "int \<Rightarrow> bool"
  builderAddFails :: "int \<Rightarrow> 32 word \<Rightarrow> bool"
  closeFails :: "int \<Rightarrow> bool"
  sizeOf :: "(32 word \<times> byte list) list \<Rightarrow> int"

text \<open>
  The job: \<^verbatim>\<open>c.rollup != nil\<close>; the \<^verbatim>\<open>compactionState\<close> (compaction, builder, outputs,
  maximum file size); what the job touches of its family (modelled from the spec: the next
  file number of the store, the pending output files, the committed edit logs and the
  current version); a record of the calls of \<^verbatim>\<open>Builder.Abandon\<close>,
  \<^verbatim>\<open>Builder.Close\<close> and \<^verbatim>\<open>Snapshot.GetReader\<close>; and the \<^verbatim>\<open>streamWriter\<close> field of
  the job's \<^verbatim>\<open>compactFlusher\<close>: \<open>None\<close> for nil, otherwise the file number of the builder
  whose stream writer it wraps.
\<close>

record compactJob =
  rollup :: bool
  compaction :: Compaction
  builder :: "Builder option"
  outputs :: "FileMeta list"
  maxFileSize :: int
  nextFileNumber :: int
  pendingOutputs :: "int set"
  committedEditLogs :: "Log list list"
  currentVersion :: Version
  abandonedFiles :: "int list"
  closedFiles :: "int list"
  openedReaders :: "int list"
  streamWriter :: "int option"

text \<open>Modelled from the spec: the family's part.\<close>

definition commitEditLog :: "compactJob \<Rightarrow> Log list \<Rightarrow> compactJob" where
  "commitEditLog c edits =
     c\<lparr>committedEditLogs := committedEditLogs c @ [edits],
       currentVersion := foldl applyLog (currentVersion c) edits\<rparr>"

definition removePendingOutput :: "compactJob \<Rightarrow> int \<Rightarrow> compactJob" where
  "removePendingOutput c num = c\<lparr>pendingOutputs := pendingOutputs c - {num}\<rparr>"

text \<open>
  \<^verbatim>\<open>openCompactionOutputFile\<close>: \<^verbatim>\<open>family.newTableBuilder\<close> takes the next file number
  and, when the builder is created, adds the number to the pending outputs.
\<close>

definition openCompactionOutputFile ::
  "compact_env \<Rightarrow> compactJob \<Rightarrow> compact_error option \<times> compactJob" where
  "openCompactionOutputFile E c =
     (let num = nextFileNumber c; c1 = c\<lparr>nextFileNumber := num + 1\<rparr> in
      if newTableBuilderFails E num then (Some ErrNewTableBuilder, c1)
      else (None, c1\<lparr>pendingOutputs := insert num (pendingOutputs c1),
                      builder := Some \<lparr>builderFileNumber = num, entries = []\<rparr>\<rparr>))"

definition addOutputFile :: "compactJob \<Rightarrow> FileMeta \<Rightarrow> compactJob" where
  "addOutputFile c f = c\<lparr>outputs := outputs c @ [f]\<rparr>"

definition finishCompactionOutputFile ::
  "compact_env \<Rightarrow> compactJob \<Rightarrow> compact_error option \<times> compactJob" where
  "finishCompactionOutputFile E c =
     (case builder c of
        None \<Rightarrow> (Some ErrStoreBuildNil, c)
      | Some b \<Rightarrow>
          if length (entries b) = 0 then (None, c\<lparr>builder := None\<rparr>)
          else if closeFails E (builderFileNumber b) then (Some ErrCloseBuilder, c)
          else
            let fileMeta = \<lparr>fileNumber = builderFileNumber b,
                             minKey = fst (hd (entries b)), maxKey = fst (last (entries b)),
                             fileSize = sizeOf E (entries b)\<rparr>;
                c1 = addOutputFile (c\<lparr>closedFiles := closedFiles c @ [builderFileNumber b]\<rparr>)
                       fileMeta
            in (None, c1\<lparr>builder := None\<rparr>))"

definition cleanupCompaction :: "compact_env \<Rightarrow> compactJob \<Rightarrow> compactJob" where
  "cleanupCompaction E c =
     (let c1 = (case builder c of
                  None \<Rightarrow> c
                | Some b \<Rightarrow>
                    removePendingOutput
                      (c\<lparr>abandonedFiles := abandonedFiles c @ [builderFileNumber b]\<rparr>)
                      (builderFileNumber b))
      in foldl (\<lambda>s output. removePendingOutput s (fileNumber output)) c1 (outputs c1))"

subsection \<open>The compact flusher\<close>

text \<open>
  After a successful \<^verbatim>\<open>beforeAdd\<close> the builder is not nil. \<^verbatim>\<open>afterAdd\<close> calls
  \<^verbatim>\<open>state.builder.Size()\<close> without a test: on a nil builder it panics. The outcome of a
  flusher call is the error it returns and the job, or a panic, which carries the job as
  the call left it.
\<close>

definition beforeAdd :: "compact_env \<Rightarrow> compactJob \<Rightarrow> compact_error option \<times> compactJob" where
  "beforeAdd E c = (if builder c = None then openCompactionOutputFile E c else (None, c))"

definition afterAdd ::
  "compact_env \<Rightarrow> compactJob \<Rightarrow> (compact_error option \<times> compactJob) partial" where
  "afterAdd E c =
     (case builder c of
        None \<Rightarrow> Panicked (None, c)
      | Some b \<Rightarrow>
          if sizeOf E (entries b) \<ge> maxFileSize c then Done (finishCompactionOutputFile E c)
          else Done (None, c))"

definition flusher_Add ::
  "compact_env \<Rightarrow> compactJob \<Rightarrow> 32 word \<Rightarrow> byte list
    \<Rightarrow> (compact_error option \<times> compactJob) partial" where
  "flusher_Add E c key val =
     (if length val = 0 then Done (None, c)
      else case beforeAdd E c of
        (Some err, c1) \<Rightarrow> Done (Some err, c1)
      | (None, c1) \<Rightarrow>
          (case builder c1 of
             None \<Rightarrow> Panicked (None, c1)
           | Some b \<Rightarrow>
               (case builder_Add (builderAddFails E) b key val of
                  Inl err \<Rightarrow> Done (Some err, c1)
                | Inr b' \<Rightarrow> afterAdd E (c1\<lparr>builder := Some b'\<rparr>))))"

text \<open>
  \<^verbatim>\<open>compactFlusher.StreamWriter\<close>: the writer is created once, over the stream writer of
  the builder that is open then, and returned from the field afterwards.
\<close>

definition flusher_StreamWriter ::
  "compact_env \<Rightarrow> compactJob \<Rightarrow> (compact_error option \<times> compactJob) partial" where
  "flusher_StreamWriter E c =
     (if streamWriter c \<noteq> None then Done (None, c)
      else case beforeAdd E c of
        (Some err, c1) \<Rightarrow> Done (Some err, c1)
      | (None, c1) \<Rightarrow>
          (case builder c1 of
             None \<Rightarrow> Panicked (None, c1)
           | Some b \<Rightarrow> Done (None, c1\<lparr>streamWriter := Some (builderFileNumber b)\<rparr>)))"

text \<open>
  Modelled from the spec: \<^verbatim>\<open>table.StreamWriter\<close> is not among the sources. An entry
  written through the stream writer of a builder (\<^verbatim>\<open>Prepare\<close>, \<^verbatim>\<open>Write\<close>, \<^verbatim>\<open>Commit\<close>) is
  added to that builder as by \<^verbatim>\<open>Add\<close>; when that builder has been closed and is no
  longer the job's builder, the write leaves the job as it is.
\<close>

definition builder_StreamWrite ::
  "compact_env \<Rightarrow> compactJob \<Rightarrow> int \<Rightarrow> 32 word \<Rightarrow> byte list \<Rightarrow> compactJob" where
  "builder_StreamWrite E c num key val =
     (case builder c of
        None \<Rightarrow> c
      | Some b \<Rightarrow>
          if builderFileNumber b \<noteq> num then c
          else (case builder_Add (builderAddFails E) b key val of
                  Inl err \<Rightarrow> c
                | Inr b' \<Rightarrow> c\<lparr>builder := Some b'\<rparr>))"

text \<open>
  \<^verbatim>\<open>compactFlusherStreamWriter.Commit\<close>, with the entry that was written since the last
  commit: the result of the inner \<^verbatim>\<open>Commit\<close> is dropped, then \<^verbatim>\<open>afterAdd\<close> runs. A
  merger holds the writer only after \<^verbatim>\<open>StreamWriter\<close> has returned it; a commit without
  one is a call on a nil writer.
\<close>

definition streamWriter_Commit ::
  "compact_env \<Rightarrow> compactJob \<Rightarrow> 32 word \<Rightarrow> byte list
    \<Rightarrow> (compact_error option \<times> compactJob) partial" where
  "streamWriter_Commit E c key val =
     (case streamWriter c of
        None \<Rightarrow> Panicked (None, c)
      | Some num \<Rightarrow> afterAdd E (builder_StreamWrite E c num key val))"

text \<open>
  Running a program of the merger against the job. \<^verbatim>\<open>Sequence\<close> does nothing;
  \<^verbatim>\<open>Commit\<close> and \<^verbatim>\<open>Release\<close> of the flusher panic.
\<close>

primrec runMerge ::
  "compact_env \<Rightarrow> merge_prog \<Rightarrow> compactJob \<Rightarrow> (compact_error option \<times> compactJob) partial" where
  "runMerge E (Return r) = (\<lambda>c. Done (r, c))"
| "runMerge E (FlusherAdd key val k) =
     (\<lambda>c. case flusher_Add E c key val of
             Done (r, c1) \<Rightarrow> runMerge E (k r) c1
           | Panicked x \<Rightarrow> Panicked x)"
| "runMerge E (FlusherStreamWriter k) =
     (\<lambda>c. case flusher_StreamWriter E c of
             Done (r, c1) \<Rightarrow> runMerge E (k r) c1
           | Panicked x \<Rightarrow> Panicked x)"
| "runMerge E (StreamWriterCommit key val k) =
     (\<lambda>c. case streamWriter_Commit E c key val of
             Done (r, c1) \<Rightarrow> runMerge E (k r) c1
           | Panicked x \<Rightarrow> Panicked x)"
| "runMerge E (FlusherSequence p) = runMerge E p"
| "runMerge E FlusherCommit = (\<lambda>c. Panicked (None, c))"
| "runMerge E FlusherRelease = (\<lambda>c. Panicked (None, c))"

definition Merge ::
  "compact_env \<Rightarrow> compactJob \<Rightarrow> 32 word \<Rightarrow> byte list list
    \<Rightarrow> (compact_error option \<times> compactJob) partial" where
  "Merge E c key vals = runMerge E (mergeOf E key vals) c"

text \<open>
  \<^verbatim>\<open>c.newMerger(c.newCompactFlusher())\<close>: the flusher is new, its \<^verbatim>\<open>streamWriter\<close> nil.
\<close>

definition newMerger ::
  "compact_env \<Rightarrow> compactJob \<Rightarrow> (compact_error option \<times> compactJob) partial" where
  "newMerger E c = runMerge E (newMergerOf E) (c\<lparr>streamWriter := None\<rparr>)"

subsection \<open>Merging\<close>

text \<open>
  \<^verbatim>\<open>makeInputIterator\<close>: a reader for every input file, the picked level first.
  Modelled from the spec: the merged iterator runs over the entries of all input files in
  key order.
\<close>

fun getReaders ::
  "compact_env \<Rightarrow> compactJob \<Rightarrow> FileMeta list
    \<Rightarrow> (compact_error + (32 word \<times> byte list) list list) \<times> compactJob" where
  "getReaders E c [] = (Inr [], c)"
| "getReaders E c (f # fs) =
     (let c1 = c\<lparr>openedReaders := openedReaders c @ [fileNumber f]\<rparr> in
      case readerOf E (fileNumber f) of
        None \<Rightarrow> (Inl (ErrGetReader (fileNumber f)), c1)
      | Some kvs \<Rightarrow>
          (case getReaders E c1 fs of
             (Inl err, c2) \<Rightarrow> (Inl err, c2)
           | (Inr its, c2) \<Rightarrow> (Inr (kvs # its), c2)))"

definition NewMergedIterator ::
  "(32 word \<times> byte list) list list \<Rightarrow> (32 word \<times> byte list) list" where
  "NewMergedIterator its = sort_key fst (concat its)"

definition makeInputIterator ::
  "compact_env \<Rightarrow> compactJob \<Rightarrow> (compact_error + (32 word \<times> byte list) list) \<times> compactJob" where
  "makeInputIterator E c =
     (case getReaders E c (concat (GetInputs (compaction c))) of
        (Inl err, c1) \<Rightarrow> (Inl err, c1)
      | (Inr its, c1) \<Rightarrow> (Inr (NewMergedIterator its), c1))"

text \<open>
  The loop of \<^verbatim>\<open>doMerge\<close> over the merged iterator, with its variables \<^verbatim>\<open>needMerge\<close>,
  \<^verbatim>\<open>previousKey\<close> and \<^verbatim>\<open>start\<close> (here \<open>startFlag\<close>); it returns them with the job.
  \<^verbatim>\<open>Merger.Init\<close>, which a rollup job calls with the rollup context before the loop, is
  given no effect on the job.
\<close>

fun doMerge_loop ::
  "compact_env \<Rightarrow> compactJob \<Rightarrow> byte list list \<Rightarrow> 32 word \<Rightarrow> bool
    \<Rightarrow> (32 word \<times> byte list) list
    \<Rightarrow> (compact_error option \<times> compactJob \<times> byte list list \<times> 32 word) partial" where
  "doMerge_loop E c needMerge previousKey startFlag [] = Done (None, c, needMerge, previousKey)"
| "doMerge_loop E c needMerge previousKey startFlag ((key, val) # it) =
     (if startFlag \<or> key = previousKey
      then doMerge_loop E c (needMerge @ [val]) key False it
      else case Merge E c previousKey needMerge of
        Panicked (r, c1) \<Rightarrow> Panicked (r, c1, needMerge, previousKey)
      | Done (Some err, c1) \<Rightarrow> Done (Some err, c1, needMerge, previousKey)
      | Done (None, c1) \<Rightarrow> doMerge_loop E c1 [val] key startFlag it)"

definition doMerge ::
  "compact_env \<Rightarrow> compactJob \<Rightarrow> (compact_error option \<times> compactJob) partial" where
  "doMerge E c =
     (case newMerger E c of
        Panicked x \<Rightarrow> Panicked x
      | Done (Some err, c0) \<Rightarrow> Done (Some err, c0)
      | Done (None, c0) \<Rightarrow>
          (case makeInputIterator E c0 of
             (Inl err, c1) \<Rightarrow> Done (Some err, c1)
           | (Inr it, c1) \<Rightarrow>
               (case doMerge_loop E c1 [] 0 True it of
                  Panicked (r, c2, needMerge, previousKey) \<Rightarrow> Panicked (r, c2)
                | Done (Some err, c2, needMerge, previousKey) \<Rightarrow> Done (Some err, c2)
                | Done (None, c2, needMerge, previousKey) \<Rightarrow>
                    (case (if length needMerge > 0 then Merge E c2 previousKey needMerge
                           else Done (None, c2)) of
                       Panicked x \<Rightarrow> Panicked x
                     | Done (Some err, c3) \<Rightarrow> Done (Some err, c3)
                     | Done (None, c3) \<Rightarrow>
                         if builder c3 \<noteq> None then Done (finishCompactionOutputFile E c3)
                         else Done (None, c3)))))"

definition installCompactionResults :: "compactJob \<Rightarrow> compactJob" where
  "installCompactionResults c =
     (let c1 = (if \<not> rollup c then c\<lparr>compaction := MarkInputDeletes (compaction c)\<rparr> else c);
          lvl = (if \<not> rollup c then level (compaction c1) + 1 else level (compaction c1));
          c2 = foldl (\<lambda>s output. s\<lparr>compaction := AddFile (compaction s) lvl output\<rparr>)
                 c1 (outputs c1)
      in commitEditLog c2 (editLog (compaction c2)))"

text \<open>
  \<^verbatim>\<open>mergeCompaction\<close>; the deferred function runs \<^verbatim>\<open>cleanupCompaction\<close> on every path,
  also when \<^verbatim>\<open>doMerge\<close> panics.
\<close>

definition mergeCompaction ::
  "compact_env \<Rightarrow> compactJob \<Rightarrow> (compact_error option \<times> compactJob) partial" where
  "mergeCompaction E c =
     (case doMerge E c of
        Panicked (r, c1) \<Rightarrow> Panicked (r, cleanupCompaction E c1)
      | Done (Some err, c1) \<Rightarrow> Done (Some err, cleanupCompaction E c1)
      | Done (None, c1) \<Rightarrow> Done (None, cleanupCompaction E (installCompactionResults c1)))"

text \<open>
  \<^verbatim>\<open>moveCompaction\<close>; \<^verbatim>\<open>GetLevelFiles()[0]\<close> panics on a compaction without input files.
\<close>

definition moveCompaction :: "compactJob \<Rightarrow> compactJob partial" where
  "moveCompaction c =
     (case levelInputs (compaction c) of
        [] \<Rightarrow> Panicked c
      | fileMeta # _ \<Rightarrow>
          let lvl = level (compaction c);
              c1 = c\<lparr>compaction := DeleteFile (compaction c) lvl (fileNumber fileMeta)\<rparr>;
              c2 = c1\<lparr>compaction := AddFile (compaction c1) (lvl + 1) fileMeta\<rparr>
          in Done (commitEditLog c2 (editLog (compaction c2))))"

definition Run :: "compact_env \<Rightarrow> compactJob \<Rightarrow> (compact_error option \<times> compactJob) partial" where
  "Run E c =
     (if \<not> rollup c \<and> IsTrivialMove (compaction c)
      then (case moveCompaction c of
              Done c1 \<Rightarrow> Done (None, c1)
            | Panicked c1 \<Rightarrow> Panicked (None, c1))
      else mergeCompaction E c)"

text \<open>
  The file numbers the job holds in the pending outputs: that of the open builder and
  those of the output files already finished.
\<close>

definition jobFiles :: "compactJob \<Rightarrow> int set" where
  "jobFiles c =
     (case builder c of None \<Rightarrow> {} | Some b \<Rightarrow> {builderFileNumber b})
       \<union> fileNumber ` set (outputs c)"



subsection \<open>A concrete compaction\<close>

text \<open>
  Level 0 holds file 1 with key 1 and level 1 holds file 2 with key 2; the store's next
  file number is 10. The merger copies key 1 to the output and fails on key 2. With a
  maximum file size of one entry the output file 10 is finished before the failure; with a
  larger maximum it is still open.
\<close>

definition demo_file1 :: FileMeta where
  "demo_file1 = \<lparr>fileNumber = 1, minKey = 1, maxKey = 1, fileSize = 1\<rparr>"

definition demo_file2 :: FileMeta where
  "demo_file2 = \<lparr>fileNumber = 2, minKey = 2, maxKey = 2, fileSize = 1\<rparr>"

definition demo_version :: Version where
  "demo_version = (\<lambda>lvl. if lvl = 0 then [demo_file1] else if lvl = 1 then [demo_file2] else [])"

definition demo_job :: compactJob where
  "demo_job =
     \<lparr>rollup = False,
      compaction = \<lparr>level = 0, levelInputs = [demo_file1], levelUpInputs = [demo_file2],
                     editLog = []\<rparr>,
      builder = None, outputs = [], maxFileSize = 1, nextFileNumber = 10,
      pendingOutputs = {}, committedEditLogs = [], currentVersion = demo_version,
      abandonedFiles = [], closedFiles = [], openedReaders = [], streamWriter = None\<rparr>"

definition demo_cenv :: compact_env where
  "demo_cenv =
     \<lparr>newMergerOf = Return None,
      readerOf = (\<lambda>n. if n = 1 then Some [(1, [7])] else if n = 2 then Some [(2, [8])] else None),
      mergeOf = (\<lambda>key vals. if key = 1 then FlusherAdd key (concat vals) Return
                              else Return (Some (ErrMerger ''merge failed''))),
      newTableBuilderFails = (\<lambda>n. False),
      builderAddFails = (\<lambda>n key. False),
      closeFails = (\<lambda>n. False),
      sizeOf = (\<lambda>es. int (length es))\<rparr>"


definition demo_move_job :: compactJob where
  "demo_move_job =
     demo_job\<lparr>compaction := \<lparr>level = 0, levelInputs = [demo_file1], levelUpInputs = [],
                               editLog = []\<rparr>\<rparr>"


definition demo_job_big :: compactJob where
  "demo_job_big = demo_job\<lparr>maxFileSize := 100\<rparr>"



text \<open>
  A merger that asks for the stream writer when it is created and writes every merged key
  through it; and the same with a builder whose \<^verbatim>\<open>Close\<close> fails.
\<close>

definition demo_cenv_stream :: compact_env where
  "demo_cenv_stream =
     demo_cenv\<lparr>newMergerOf := FlusherStreamWriter Return,
               mergeOf := (\<lambda>key vals. StreamWriterCommit key (concat vals) Return)\<rparr>"

definition demo_cenv_close_fails :: compact_env where
  "demo_cenv_close_fails = demo_cenv_stream\<lparr>closeFails := (\<lambda>n. True)\<rparr>"


text \<open>
  The job after that merger has been created (builder 10 is open and empty), and the big
  job when both keys have been written and the builder is to be closed.
\<close>

definition demo_opened :: compactJob where
  "demo_opened =
     demo_job\<lparr>nextFileNumber := 11, pendingOutputs := {10},
              builder := Some \<lparr>builderFileNumber = 10, entries = []\<rparr>,
              streamWriter := Some 10\<rparr>"


text \<open>
  A job whose maximum file size is that of an empty builder, with a builder that cannot
  write: the merger's only write through the stream writer adds nothing, and the merge
  returns an error.
\<close>

definition demo_job_zero :: compactJob where
  "demo_job_zero = demo_job\<lparr>maxFileSize := 0\<rparr>"

definition demo_cenv_no_write :: compact_env where
  "demo_cenv_no_write =
     demo_cenv_stream\<lparr>builderAddFails := (\<lambda>n key. True),
        mergeOf := (\<lambda>key vals. StreamWriterCommit key (concat vals)
                      (\<lambda>r. Return (Some (ErrMerger ''merge failed''))))\<rparr>"

section \<open>Properties\<close>

subsection \<open>WAL page size\<close>

lemma GetPageSize_default: "PageSize rc \<le> 0 \<Longrightarrow> GetPageSize rc = MiB128"
  by (simp add: GetPageSize_def MiB128_def)

lemma GetPageSize_upper: "GetPageSize rc \<le> GiB1"
  by (simp add: GetPageSize_def GiB1_def)

lemma GetPageSize_as_is:
  "0 < PageSize rc \<Longrightarrow> PageSize rc < GiB1 \<Longrightarrow> GetPageSize rc = PageSize rc"
  by (simp add: GetPageSize_def GiB1_def)

text \<open>
  C6. The claim places every effective page size in the interval from 128 MiB to 1 GiB and
  says that a configured value below 128 MiB is never used as it is. The function has no
  lower clamp for positive values: a configured page size of 1 MiB is returned unchanged,
  below the 128 MiB bound that the configuration's own TOML text announces.
\<close>

theorem GetPageSize_one_mebibyte:
  "GetPageSize \<lparr>PageSize = 1024 * 1024\<rparr> = 1024 * 1024
   \<and> GetPageSize \<lparr>PageSize = 1024 * 1024\<rparr> < MiB128"
  by (simp add: GetPageSize_def MiB128_def)

subsection \<open>The mmap SST reader\<close>

lemma Rank_bounds:
  assumes "k \<in> ks"
  shows "1 \<le> Rank ks k" and "Rank ks k \<le> card ks"
proof -
  have fin: "finite ks" by simp
  have sub: "Set.filter (\<lambda>x. x \<le> k) ks \<subseteq> ks" by auto
  have "k \<in> Set.filter (\<lambda>x. x \<le> k) ks" using assms by simp
  then have "card (Set.filter (\<lambda>x. x \<le> k) ks) \<noteq> 0"
    using fin sub by (metis card_eq_0_iff empty_iff finite_subset)
  then show "1 \<le> Rank ks k" unfolding Rank_def by linarith
  show "Rank ks k \<le> card ks" unfolding Rank_def using fin sub by (rule card_mono)
qed

lemma footerMagicE:
  assumes "footerMagic L data = Some m"
  obtains mb where
    "slice_from data (int (length data) - sstFileFooterSize L + magicNumberAtFooter L) = Some mb"
    and "Uint64 mb = Some m"
  using assms unfolding footerMagic_def footerStartOf_def
  by (auto simp: bind_eq_Some_conv)

lemma footerPosOfOffsetE:
  assumes "footerPosOfOffset L data = Some p1"
  obtains w1 where
    "Option.bind (slice_range data (int (length data) - sstFileFooterSize L)
        (int (length data) - sstFileFooterSize L + 4)) Uint32 = Some w1"
    and "p1 = uint w1"
  using assms unfolding footerPosOfOffset_def footerStartOf_def
  by auto

lemma footerPosOfKeysE:
  assumes "footerPosOfKeys L data = Some p2"
  obtains w2 where
    "Option.bind (slice_range data (int (length data) - sstFileFooterSize L + 4)
        (int (length data) - sstFileFooterSize L + 8)) Uint32 = Some w2"
    and "p2 = uint w2"
  using assms unfolding footerPosOfKeys_def footerStartOf_def
  by auto

lemma initialize_GoOk:
  assumes "initialize L C r0 = GoOk r"
  shows "\<exists>p1 p2 d.
           footerMagic L (fullBlock r0) = Some (magicNumberOffsetFile L)
         \<and> footerPosOfOffset L (fullBlock r0) = Some p1
         \<and> footerPosOfKeys L (fullBlock r0) = Some p2
         \<and> 0 \<le> p1 \<and> p1 \<le> p2 \<and> p2 \<le> footerStartOf L (fullBlock r0)
         \<and> unmarshalFixedOffset C (take (nat (p2 - p1)) (drop (nat p1) (fullBlock r0))) = Inr d
         \<and> BitmapUnmarshal C (drop (nat p2) (fullBlock r0)) = Inr (keys r)
         \<and> offsetsSize C d = int (card (keys r))
         \<and> r = r0\<lparr>offsets := Some d, keys := keys r,
                   entriesBlock := take (nat p1) (fullBlock r0)\<rparr>"
  using assms
  unfolding initialize_def footerMagic_def footerPosOfOffset_def footerPosOfKeys_def
    footerStartOf_def Let_def GetCardinality_def
  by (auto split: option.splits sum.splits if_splits Option.bind_splits
      simp: slice_range_def slice_from_def)

lemma initialize_magic:
  assumes "footerMagic L (fullBlock r0) = Some m" "m \<noteq> magicNumberOffsetFile L"
  shows "initialize L C r0 = GoErr ErrMagicNumber"
proof -
  from assms(1) obtain mb where
    "slice_from (fullBlock r0)
       (int (length (fullBlock r0)) - sstFileFooterSize L + magicNumberAtFooter L) = Some mb"
    "Uint64 mb = Some m" by (rule footerMagicE)
  then show ?thesis using assms(2) by (simp add: initialize_def Let_def)
qed

lemma footerMagic_defined:
  assumes "0 \<le> magicNumberAtFooter L" "magicNumberAtFooter L + 8 \<le> sstFileFooterSize L"
    "sstFileFooterSize L \<le> int (length data)"
  shows "\<exists>m. footerMagic L data = Some m"
  using assms
  unfolding footerMagic_def footerStartOf_def slice_from_def Uint64_def
  by (auto split: Option.bind_splits)

lemma initialize_bad_footer:
  assumes "footerMagic L (fullBlock r0) = Some (magicNumberOffsetFile L)"
    "footerPosOfOffset L (fullBlock r0) = Some p1"
    "footerPosOfKeys L (fullBlock r0) = Some p2"
    "\<not> (0 \<le> p1 \<and> p1 \<le> p2 \<and> p2 \<le> footerStartOf L (fullBlock r0))"
  shows "initialize L C r0 = GoErr (ErrBadFooter p1 p2 (footerStartOf L (fullBlock r0)))"
proof -
  from assms(1) obtain mb where mb:
    "slice_from (fullBlock r0)
       (int (length (fullBlock r0)) - sstFileFooterSize L + magicNumberAtFooter L) = Some mb"
    "Uint64 mb = Some (magicNumberOffsetFile L)" by (rule footerMagicE)
  from assms(2) obtain w1 where w1:
    "Option.bind (slice_range (fullBlock r0) (int (length (fullBlock r0)) - sstFileFooterSize L)
        (int (length (fullBlock r0)) - sstFileFooterSize L + 4)) Uint32 = Some w1"
    "p1 = uint w1" by (rule footerPosOfOffsetE)
  from assms(3) obtain w2 where w2:
    "Option.bind (slice_range (fullBlock r0) (int (length (fullBlock r0)) - sstFileFooterSize L + 4)
        (int (length (fullBlock r0)) - sstFileFooterSize L + 8)) Uint32 = Some w2"
    "p2 = uint w2" by (rule footerPosOfKeysE)
  have ns: "\<not> intsAreSorted
      [0, uint w1, uint w2, int (length (fullBlock r0)) - sstFileFooterSize L]"
    using assms(4) w1(2) w2(2) by (simp add: footerStartOf_def)
  show ?thesis
    unfolding initialize_def Let_def
    by (simp only: mb w1(1) w2(1) option.case if_False if_True ns not_not simp_thms
        w1(2) w2(2) footerStartOf_def)
qed

lemma initialize_count_mismatch:
  assumes "footerMagic L (fullBlock r0) = Some (magicNumberOffsetFile L)"
    "footerPosOfOffset L (fullBlock r0) = Some p1"
    "footerPosOfKeys L (fullBlock r0) = Some p2"
    "0 \<le> p1 \<and> p1 \<le> p2 \<and> p2 \<le> footerStartOf L (fullBlock r0)"
    "0 \<le> sstFileFooterSize L"
    "unmarshalFixedOffset C (take (nat (p2 - p1)) (drop (nat p1) (fullBlock r0))) = Inr d"
    "BitmapUnmarshal C (drop (nat p2) (fullBlock r0)) = Inr ks"
    "offsetsSize C d \<noteq> int (card ks)"
  shows "initialize L C r0 = GoErr ErrNumOfKeys"
proof -
  from assms(1) obtain mb where mb:
    "slice_from (fullBlock r0)
       (int (length (fullBlock r0)) - sstFileFooterSize L + magicNumberAtFooter L) = Some mb"
    "Uint64 mb = Some (magicNumberOffsetFile L)" by (rule footerMagicE)
  from assms(2) obtain w1 where w1:
    "Option.bind (slice_range (fullBlock r0) (int (length (fullBlock r0)) - sstFileFooterSize L)
        (int (length (fullBlock r0)) - sstFileFooterSize L + 4)) Uint32 = Some w1"
    "p1 = uint w1" by (rule footerPosOfOffsetE)
  from assms(3) obtain w2 where w2:
    "Option.bind (slice_range (fullBlock r0) (int (length (fullBlock r0)) - sstFileFooterSize L + 4)
        (int (length (fullBlock r0)) - sstFileFooterSize L + 8)) Uint32 = Some w2"
    "p2 = uint w2" by (rule footerPosOfKeysE)
  have srt: "intsAreSorted
      [0, uint w1, uint w2, int (length (fullBlock r0)) - sstFileFooterSize L]"
    using assms(4) w1(2) w2(2) by (simp add: footerStartOf_def)
  have le: "uint w2 \<le> int (length (fullBlock r0))"
    using assms(4,5) w2(2) by (simp add: footerStartOf_def)
  have s1: "slice_range (fullBlock r0) (uint w1) (uint w2)
      = Some (take (nat (p2 - p1)) (drop (nat p1) (fullBlock r0)))"
    using assms(4) le w1(2) w2(2) by (simp add: slice_range_def)
  have s2: "slice_from (fullBlock r0) (uint w2) = Some (drop (nat p2) (fullBlock r0))"
    using le w2(2) by (simp add: slice_from_def)
  show ?thesis
    unfolding initialize_def Let_def
    using assms(8)
    by (simp add: mb w1(1) w2(1) srt s1 s2 assms(6,7) GetCardinality_def
        del: intsAreSorted.simps)
qed

lemma newMMapStoreReader_Mapped:
  assumes "fs p = Mapped data" "sstFileFooterSize L \<le> int (length data)"
  shows "returned (newMMapStoreReader L C fs p fname)
     = initialize L C \<lparr>path = p, fileName = fname, keys = {}, offsets = None,
                        fullBlock = data, entriesBlock = []\<rparr>"
  using assms by (simp add: newMMapStoreReader_def split: go_result.splits)

lemma newMMapStoreReader_GoOk:
  assumes "returned (newMMapStoreReader L C fs p fname) = GoOk r"
  shows "\<exists>data. fs p = Mapped data \<and> sstFileFooterSize L \<le> int (length data)
     \<and> initialize L C \<lparr>path = p, fileName = fname, keys = {}, offsets = None,
                        fullBlock = data, entriesBlock = []\<rparr> = GoOk r"
  using assms
  by (auto simp: newMMapStoreReader_def split: mapped_file.splits if_splits go_result.splits)


text \<open>
  C2. For every reader and every key \<open>k\<close>: \<^verbatim>\<open>Get(k)\<close> returns \<^verbatim>\<open>ErrKeyNotExist\<close>
  exactly when the keys bitmap does not contain \<open>k\<close>; when it does, \<^verbatim>\<open>Get(k)\<close> returns
  what the reader's block lookup returns at index \<open>rank(k) - 1\<close>, and on an opened reader
  (one with a decoder) that is the result of the fixed-offset decoder's \<^verbatim>\<open>GetBlock\<close> on
  the entries block at that index.
\<close>

theorem Get_by_rank:
  "(Get C r k = GoErr ErrKeyNotExist \<longleftrightarrow> \<not> Contains (keys r) k)
   \<and> (Contains (keys r) k \<longrightarrow>
        Get C r k = getBlock C r (int (Rank (keys r) k) - 1))
   \<and> (\<forall>d. offsets r = Some d \<longrightarrow>
        getBlock C r (int (Rank (keys r) k) - 1)
          = (case GetBlock C d (int (Rank (keys r) k) - 1) (entriesBlock r) of
               Inl e \<Rightarrow> GoErr (ErrDecoder e) | Inr block \<Rightarrow> GoOk block))"
  by (auto simp: Get_def getBlock_def Let_def split: option.splits sum.splits)

lemma demo_rank: "Rank {5, 9} 9 = 2" "Rank {5, 9} 5 = 1"
  by code_simp+

theorem Get_by_rank_witness:
  "Get demo_codec demo_reader 9 = GoOk [11, 12]
   \<and> Get demo_codec demo_reader 5 = GoOk [10, 11, 12]
   \<and> Get demo_codec demo_reader 7 = GoErr ErrKeyNotExist"
  using Get_by_rank [of demo_codec demo_reader 9] Get_by_rank [of demo_codec demo_reader 5]
    Get_by_rank [of demo_codec demo_reader 7]
  by (simp add: demo_reader_def demo_codec_def Contains_def demo_rank)

text \<open>
  C7. Opening a mapped file returns an error, and no reader, when the file is shorter than
  the footer, and when the magic number read from the footer differs from the expected
  constant. The last conjunct says that the magic number can always be read from a file at
  least as long as the footer when the 8 bytes of the magic number lie inside the footer.
\<close>

theorem newMMapStoreReader_rejects:
  assumes "fs p = Mapped data"
  shows "(int (length data) < sstFileFooterSize L \<longrightarrow>
            returned (newMMapStoreReader L C fs p fname) = GoErr ErrTooShort)
       \<and> (sstFileFooterSize L \<le> int (length data) \<and> footerMagic L data = Some m
            \<and> m \<noteq> magicNumberOffsetFile L \<longrightarrow>
            returned (newMMapStoreReader L C fs p fname) = GoErr ErrMagicNumber)
       \<and> (0 \<le> magicNumberAtFooter L \<and> magicNumberAtFooter L + 8 \<le> sstFileFooterSize L
            \<and> sstFileFooterSize L \<le> int (length data) \<longrightarrow>
            footerMagic L data \<noteq> None)"
proof (intro conjI impI)
  assume "int (length data) < sstFileFooterSize L"
  then show "returned (newMMapStoreReader L C fs p fname) = GoErr ErrTooShort"
    using assms by (simp add: newMMapStoreReader_def)
next
  assume a: "sstFileFooterSize L \<le> int (length data) \<and> footerMagic L data = Some m
            \<and> m \<noteq> magicNumberOffsetFile L"
  then show "returned (newMMapStoreReader L C fs p fname) = GoErr ErrMagicNumber"
    using assms newMMapStoreReader_Mapped [of fs p data L C fname]
      initialize_magic [of L "\<lparr>path = p, fileName = fname, keys = {}, offsets = None,
                        fullBlock = data, entriesBlock = []\<rparr>" m C]
    by simp
next
  assume "0 \<le> magicNumberAtFooter L \<and> magicNumberAtFooter L + 8 \<le> sstFileFooterSize L
            \<and> sstFileFooterSize L \<le> int (length data)"
  then show "footerMagic L data \<noteq> None"
    using footerMagic_defined [of L data] by auto
qed

lemma demo_layout_fields:
  "sstFileFooterSize demo_layout = 20" "magicNumberAtFooter demo_layout = 12"
  "magicNumberOffsetFile demo_layout = 0x0807060504030201"
  by (simp_all add: demo_layout_def)

lemma demo_bad_magic_read: "footerMagic demo_layout demo_bad_magic = Some 0x0907060504030201"
  by (simp add: footerMagic_def footerStartOf_def demo_layout_def demo_bad_magic_def
      slice_from_def Uint64_def)

theorem newMMapStoreReader_rejects_witness:
  "returned (newMMapStoreReader demo_layout demo_codec demo_fs ''3.sst'' ''3.sst'')
      = GoErr ErrTooShort
   \<and> returned (newMMapStoreReader demo_layout demo_codec demo_fs ''2.sst'' ''2.sst'')
      = GoErr ErrMagicNumber
   \<and> footerMagic demo_layout demo_bad_magic \<noteq> None"
proof -
  have f3: "demo_fs ''3.sst'' = Mapped [1, 2, 3]" by (simp add: demo_fs_def)
  have f2: "demo_fs ''2.sst'' = Mapped demo_bad_magic" by (simp add: demo_fs_def)
  have len: "length demo_bad_magic = 28" by (simp add: demo_bad_magic_def)
  show ?thesis
    using
      newMMapStoreReader_rejects [where fs = demo_fs and p = "''3.sst''" and data = "[1, 2, 3]"
        and L = demo_layout and C = demo_codec and fname = "''3.sst''"]
      newMMapStoreReader_rejects [where fs = demo_fs and p = "''2.sst''"
        and data = demo_bad_magic and L = demo_layout and C = demo_codec
        and fname = "''2.sst''" and m = "0x0907060504030201"]
    by (simp add: f2 f3 demo_bad_magic_read len demo_layout_fields)
qed


lemma footerPos_defined:
  assumes "8 \<le> sstFileFooterSize L" "sstFileFooterSize L \<le> int (length data)"
  shows "footerPosOfOffset L data \<noteq> None \<and> footerPosOfKeys L data \<noteq> None"
proof -
  define fs where "fs = int (length data) - sstFileFooterSize L"
  have fs: "0 \<le> fs" "fs + 8 \<le> int (length data)" using assms by (simp_all add: fs_def)
  have "\<exists>b. slice_range data fs (fs + 4) = Some b \<and> length b = 4"
    using fs by (simp add: slice_range_def)
  moreover have "\<exists>b. slice_range data (fs + 4) (fs + 8) = Some b \<and> length b = 4"
    using fs by (simp add: slice_range_def)
  ultimately show ?thesis
    unfolding footerPosOfOffset_def footerPosOfKeys_def footerStartOf_def fs_def [symmetric]
    by (auto simp: Uint32_def)
qed

text \<open>
  C9. Whenever opening succeeds, the two positions read from the footer satisfy
  \<open>0 \<le> posOfOffset \<le> posOfKeys \<le> footerStart\<close>, the decoder has as many entries as the
  keys bitmap has keys, and for every key of the bitmap the index \<open>rank - 1\<close> used by
  \<^verbatim>\<open>Get\<close> lies in \<open>[0, Size)\<close>. A file with a good magic number whose positions
  are not ordered is rejected with the bad-footer error, and one whose decoder size differs
  from the cardinality of its keys with the number-of-keys error. The two positions can
  always be read from a file at least as long as a footer of eight bytes or more.
\<close>

theorem newMMapStoreReader_footer_checked:
  "(returned (newMMapStoreReader L (C :: ('d, 'e) sst_codec) fs p fname) = GoOk r \<longrightarrow>
      (\<exists>p1 p2 d.
          footerPosOfOffset L (fullBlock r) = Some p1
        \<and> footerPosOfKeys L (fullBlock r) = Some p2
        \<and> 0 \<le> p1 \<and> p1 \<le> p2 \<and> p2 \<le> footerStartOf L (fullBlock r)
        \<and> offsets r = Some d
        \<and> offsetsSize C d = int (GetCardinality (keys r))
        \<and> (\<forall>k. Contains (keys r) k \<longrightarrow>
              0 \<le> int (Rank (keys r) k) - 1 \<and> int (Rank (keys r) k) - 1 < offsetsSize C d)))
   \<and> (fs p = Mapped data \<and> sstFileFooterSize L \<le> int (length data)
        \<and> footerMagic L data = Some (magicNumberOffsetFile L)
        \<and> footerPosOfOffset L data = Some q1 \<and> footerPosOfKeys L data = Some q2
        \<and> \<not> (0 \<le> q1 \<and> q1 \<le> q2 \<and> q2 \<le> footerStartOf L data)
       \<longrightarrow> returned (newMMapStoreReader L C fs p fname)
             = GoErr (ErrBadFooter q1 q2 (footerStartOf L data)))
   \<and> (fs p = Mapped data \<and> 0 \<le> sstFileFooterSize L
        \<and> sstFileFooterSize L \<le> int (length data)
        \<and> footerMagic L data = Some (magicNumberOffsetFile L)
        \<and> footerPosOfOffset L data = Some q1 \<and> footerPosOfKeys L data = Some q2
        \<and> 0 \<le> q1 \<and> q1 \<le> q2 \<and> q2 \<le> footerStartOf L data
        \<and> unmarshalFixedOffset C (take (nat (q2 - q1)) (drop (nat q1) data)) = Inr d0
        \<and> BitmapUnmarshal C (drop (nat q2) data) = Inr ks
        \<and> offsetsSize C d0 \<noteq> int (GetCardinality ks)
       \<longrightarrow> returned (newMMapStoreReader L C fs p fname) = GoErr ErrNumOfKeys)
   \<and> (8 \<le> sstFileFooterSize L \<and> sstFileFooterSize L \<le> int (length data) \<longrightarrow>
        footerPosOfOffset L data \<noteq> None \<and> footerPosOfKeys L data \<noteq> None)"
proof (intro conjI impI)
  assume ok: "returned (newMMapStoreReader L C fs p fname) = GoOk r"
  then obtain data' where d: "fs p = Mapped data'"
    and i: "initialize L C \<lparr>path = p, fileName = fname, keys = {}, offsets = None,
                        fullBlock = data', entriesBlock = []\<rparr> = GoOk r"
    using newMMapStoreReader_GoOk by blast
  from initialize_GoOk [OF i] obtain p1 p2 d where
    pos: "footerPosOfOffset L data' = Some p1" "footerPosOfKeys L data' = Some p2"
      "0 \<le> p1" "p1 \<le> p2" "p2 \<le> footerStartOf L data'"
    and sz: "offsetsSize C d = int (card (keys r))"
    and r: "r = \<lparr>path = p, fileName = fname, keys = {}, offsets = None,
                fullBlock = data', entriesBlock = []\<rparr>
              \<lparr>offsets := Some d, keys := keys r, entriesBlock := take (nat p1) data'\<rparr>"
    by auto
  have fb: "fullBlock r = data'" and off: "offsets r = Some d"
    by (subst r, simp)+
  have rk: "\<forall>k. Contains (keys r) k \<longrightarrow>
      0 \<le> int (Rank (keys r) k) - 1 \<and> int (Rank (keys r) k) - 1 < offsetsSize C d"
  proof (intro allI impI)
    fix k assume "Contains (keys r) k"
    then have "k \<in> keys r" by (simp add: Contains_def)
    from Rank_bounds [OF this] show
      "0 \<le> int (Rank (keys r) k) - 1 \<and> int (Rank (keys r) k) - 1 < offsetsSize C d"
      using sz by linarith
  qed
  show "\<exists>p1 p2 d.
          footerPosOfOffset L (fullBlock r) = Some p1
        \<and> footerPosOfKeys L (fullBlock r) = Some p2
        \<and> 0 \<le> p1 \<and> p1 \<le> p2 \<and> p2 \<le> footerStartOf L (fullBlock r)
        \<and> offsets r = Some d
        \<and> offsetsSize C d = int (GetCardinality (keys r))
        \<and> (\<forall>k. Contains (keys r) k \<longrightarrow>
              0 \<le> int (Rank (keys r) k) - 1 \<and> int (Rank (keys r) k) - 1 < offsetsSize C d)"
    using pos sz rk off unfolding fb GetCardinality_def by blast
next
  assume a: "fs p = Mapped data \<and> sstFileFooterSize L \<le> int (length data)
        \<and> footerMagic L data = Some (magicNumberOffsetFile L)
        \<and> footerPosOfOffset L data = Some q1 \<and> footerPosOfKeys L data = Some q2
        \<and> \<not> (0 \<le> q1 \<and> q1 \<le> q2 \<and> q2 \<le> footerStartOf L data)"
  let ?r0 = "\<lparr>path = p, fileName = fname, keys = {}, offsets = None,
                        fullBlock = data, entriesBlock = []\<rparr> :: 'd storeMMapReader"
  have "initialize L C ?r0 = GoErr (ErrBadFooter q1 q2 (footerStartOf L (fullBlock ?r0)))"
    by (rule initialize_bad_footer) (use a in simp_all)
  then show "returned (newMMapStoreReader L C fs p fname)
             = GoErr (ErrBadFooter q1 q2 (footerStartOf L data))"
    using a newMMapStoreReader_Mapped [of fs p data L C fname] by simp
next
  assume a: "fs p = Mapped data \<and> 0 \<le> sstFileFooterSize L
        \<and> sstFileFooterSize L \<le> int (length data)
        \<and> footerMagic L data = Some (magicNumberOffsetFile L)
        \<and> footerPosOfOffset L data = Some q1 \<and> footerPosOfKeys L data = Some q2
        \<and> 0 \<le> q1 \<and> q1 \<le> q2 \<and> q2 \<le> footerStartOf L data
        \<and> unmarshalFixedOffset C (take (nat (q2 - q1)) (drop (nat q1) data)) = Inr d0
        \<and> BitmapUnmarshal C (drop (nat q2) data) = Inr ks
        \<and> offsetsSize C d0 \<noteq> int (GetCardinality ks)"
  let ?r0 = "\<lparr>path = p, fileName = fname, keys = {}, offsets = None,
                        fullBlock = data, entriesBlock = []\<rparr> :: 'd storeMMapReader"
  have "initialize L C ?r0 = GoErr ErrNumOfKeys"
    by (rule initialize_count_mismatch [where ?p1.0 = q1 and ?p2.0 = q2 and d = d0 and ks = ks])
      (use a in \<open>simp_all add: GetCardinality_def\<close>)
  then show "returned (newMMapStoreReader L C fs p fname) = GoErr ErrNumOfKeys"
    using a newMMapStoreReader_Mapped [of fs p data L C fname] by simp
next
  assume a: "8 \<le> sstFileFooterSize L \<and> sstFileFooterSize L \<le> int (length data)"
  then show "footerPosOfOffset L data \<noteq> None" "footerPosOfKeys L data \<noteq> None"
    using footerPos_defined [of L data] by simp_all
qed

lemma demo_open:
  "returned (newMMapStoreReader demo_layout demo_codec demo_fs ''1.sst'' ''1.sst'')
     = GoOk demo_reader"
  by (simp add: newMMapStoreReader_def demo_fs_def initialize_def demo_layout_def demo_file_def
      slice_from_def slice_range_def Uint64_def Uint32_def demo_codec_def demo_reader_def
      GetCardinality_def)

lemma demo_bad_footer_reads:
  "footerMagic demo_layout demo_bad_footer = Some 0x0807060504030201"
  "footerPosOfOffset demo_layout demo_bad_footer = Some 6"
  "footerPosOfKeys demo_layout demo_bad_footer = Some 5"
  "footerStartOf demo_layout demo_bad_footer = 8"
  by (simp_all add: footerMagic_def footerPosOfOffset_def footerPosOfKeys_def footerStartOf_def
      demo_layout_def demo_bad_footer_def slice_from_def slice_range_def Uint64_def Uint32_def)

lemma demo_bad_count_reads:
  "footerMagic demo_layout demo_bad_count = Some 0x0807060504030201"
  "footerPosOfOffset demo_layout demo_bad_count = Some 3"
  "footerPosOfKeys demo_layout demo_bad_count = Some 5"
  "footerStartOf demo_layout demo_bad_count = 8"
  "unmarshalFixedOffset demo_codec (take 2 (drop 3 demo_bad_count)) = Inr [0, 1]"
  "BitmapUnmarshal demo_codec (drop 5 demo_bad_count) = Inr {5}"
  by (simp_all add: footerMagic_def footerPosOfOffset_def footerPosOfKeys_def footerStartOf_def
      demo_layout_def demo_bad_count_def slice_from_def slice_range_def Uint64_def Uint32_def
      demo_codec_def)

lemma demo_codec_fields:
  "offsetsSize demo_codec d = int (length d)"
  by (simp add: demo_codec_def)

theorem newMMapStoreReader_footer_checked_witness:
  "(\<exists>p1 p2 d.
          footerPosOfOffset demo_layout (fullBlock demo_reader) = Some p1
        \<and> footerPosOfKeys demo_layout (fullBlock demo_reader) = Some p2
        \<and> 0 \<le> p1 \<and> p1 \<le> p2 \<and> p2 \<le> footerStartOf demo_layout (fullBlock demo_reader)
        \<and> offsets demo_reader = Some d
        \<and> offsetsSize demo_codec d = int (GetCardinality (keys demo_reader))
        \<and> (\<forall>k. Contains (keys demo_reader) k \<longrightarrow>
              0 \<le> int (Rank (keys demo_reader) k) - 1
              \<and> int (Rank (keys demo_reader) k) - 1 < offsetsSize demo_codec d))
   \<and> returned (newMMapStoreReader demo_layout demo_codec demo_fs ''4.sst'' ''4.sst'')
        = GoErr (ErrBadFooter 6 5 8)
   \<and> returned (newMMapStoreReader demo_layout demo_codec demo_fs ''5.sst'' ''5.sst'')
        = GoErr ErrNumOfKeys"
proof -
  have f4: "demo_fs ''4.sst'' = Mapped demo_bad_footer" by (simp add: demo_fs_def)
  have f5: "demo_fs ''5.sst'' = Mapped demo_bad_count" by (simp add: demo_fs_def)
  have len: "length demo_bad_footer = 28" "length demo_bad_count = 28"
    by (simp_all add: demo_bad_footer_def demo_bad_count_def)
  note t1 = newMMapStoreReader_footer_checked [where L = demo_layout and C = demo_codec
        and fs = demo_fs and p = "''1.sst''" and fname = "''1.sst''" and r = demo_reader,
        THEN conjunct1, rule_format, OF demo_open]
  note t4 = newMMapStoreReader_footer_checked [where L = demo_layout and C = demo_codec
        and fs = demo_fs and p = "''4.sst''" and fname = "''4.sst''"
        and data = demo_bad_footer and ?q1.0 = 6 and ?q2.0 = 5,
        THEN conjunct2, THEN conjunct1]
  note t5 = newMMapStoreReader_footer_checked [where L = demo_layout and C = demo_codec
        and fs = demo_fs and p = "''5.sst''" and fname = "''5.sst''"
        and data = demo_bad_count and ?q1.0 = 3 and ?q2.0 = 5 and ?d0.0 = "[0, 1]"
        and ks = "{5}", THEN conjunct2, THEN conjunct2, THEN conjunct1]
  have a4: "returned (newMMapStoreReader demo_layout demo_codec demo_fs ''4.sst'' ''4.sst'')
        = GoErr (ErrBadFooter 6 5 8)"
    using t4 by (simp add: f4 len demo_bad_footer_reads demo_layout_fields)
  have a5: "returned (newMMapStoreReader demo_layout demo_codec demo_fs ''5.sst'' ''5.sst'')
        = GoErr ErrNumOfKeys"
    using t5
    by (simp add: f5 len demo_bad_count_reads demo_layout_fields GetCardinality_def
        demo_codec_fields)
  show ?thesis using t1 a4 a5 by blast
qed

subsection \<open>De-duplication of tags\<close>

lemma keepLast_nonempty: "xs \<noteq> [] \<Longrightarrow> keepLast xs \<noteq> []"
  by (induction xs rule: keepLast.induct) auto

lemma keepLast_last: "xs \<noteq> [] \<Longrightarrow> last (keepLast xs) = last xs"
  by (induction xs rule: keepLast.induct) (auto simp: keepLast_nonempty)

lemma keepLast_snoc:
  "ys \<noteq> [] \<Longrightarrow> keepLast (ys @ [y]) =
     (if Key (last ys) = Key y then butlast (keepLast ys) @ [y] else keepLast ys @ [y])"
proof (induction ys rule: keepLast.induct)
  case (1 x z rest)
  then show ?case by (auto simp: keepLast_nonempty butlast_append)
qed simp_all

lemma set_keepLast_subset: "set (keepLast xs) \<subseteq> set xs"
  by (induction xs rule: keepLast.induct) auto

lemma keys_keepLast: "set (map Key (keepLast xs)) = set (map Key xs)"
  by (induction xs rule: keepLast.induct) auto

lemma hd_keepLast_key: "xs \<noteq> [] \<Longrightarrow> Key (hd (keepLast xs)) = Key (hd xs)"
  by (induction xs rule: keepLast.induct) auto

lemma sorted_keepLast:
  "sorted (map Key xs) \<Longrightarrow> sorted (map Key (keepLast xs))"
proof (induction xs rule: keepLast.induct)
  case (1 x y rest)
  then show ?case using set_keepLast_subset [of "y # rest"] by auto
qed auto

lemma distinct_keepLast:
  "sorted (map Key xs) \<Longrightarrow> distinct (map Key (keepLast xs))"
proof (induction xs rule: keepLast.induct)
  case (1 x y rest)
  show ?case
  proof (cases "Key x = Key y")
    case True
    then show ?thesis using 1 by simp
  next
    case False
    have "\<forall>t \<in> set (y # rest). Key x < Key t" using 1(3) False by fastforce
    then have "\<forall>t \<in> set (keepLast (y # rest)). Key x < Key t"
      using set_keepLast_subset [of "y # rest"] by blast
    then have "Key x \<notin> Key ` set (keepLast (y # rest))" by auto
    then show ?thesis using 1 False by simp
  qed
qed auto

lemma keepLast_is_last:
  "sorted (map Key xs) \<Longrightarrow> kv \<in> set (keepLast xs) \<Longrightarrow>
     kv = last (filter (\<lambda>t. Key t = Key kv) xs)"
proof (induction xs rule: keepLast.induct)
  case (1 x y rest)
  have srt: "sorted (map Key (y # rest))" using 1(3) by simp
  show ?case
  proof (cases "Key x = Key y")
    case True
    then have kv: "kv \<in> set (keepLast (y # rest))" using 1(4) by simp
    then have ih: "kv = last (filter (\<lambda>t. Key t = Key kv) (y # rest))"
      using 1(1) [OF True srt] by simp
    show ?thesis
    proof (cases "Key x = Key kv")
      case k: True
      then have "filter (\<lambda>t. Key t = Key kv) (y # rest) \<noteq> []" using True by simp
      then show ?thesis using ih k by simp
    next
      case False
      then show ?thesis using ih by simp
    qed
  next
    case False
    have lt: "\<forall>t \<in> set (y # rest). Key x < Key t" using 1(3) False by fastforce
    from 1(4) False have "kv = x \<or> kv \<in> set (keepLast (y # rest))" by simp
    then show ?thesis
    proof
      assume "kv = x"
      moreover have "filter (\<lambda>t. Key t = Key x) (y # rest) = []"
        using lt by (auto simp: filter_empty_conv)
      ultimately show ?thesis by simp
    next
      assume kv: "kv \<in> set (keepLast (y # rest))"
      then have "kv \<in> set (y # rest)" using set_keepLast_subset by blast
      then have "Key x \<noteq> Key kv" using lt by auto
      moreover have "kv = last (filter (\<lambda>t. Key t = Key kv) (y # rest))"
        using 1(2) [OF False srt kv] .
      ultimately show ?thesis by simp
    qed
  qed
qed simp_all


lemma deDupLoop_keepLast:
  assumes "length tags = length xs" "0 < high" "high \<le> length xs" "slow < high"
    "take (Suc slow) tags = keepLast (take high xs)" "drop high tags = drop high xs"
  shows "case deDupLoop tags slow high of (tags', slow') \<Rightarrow>
           take (Suc slow') tags' = keepLast xs \<and> slow' < length xs"
  using assms
proof (induction tags slow high rule: deDupLoop.induct)
  case (1 tags slow high)
  show ?case
  proof (cases "high < length tags")
    case False
    then have tk: "take high xs = xs" using 1(2,4) by simp
    have "deDupLoop tags slow high = (tags, slow)"
      using False by (subst deDupLoop.simps) simp
    then show ?thesis using 1(2,4,5,6) tk by simp
  next
    case True
    define v where "v = tags ! high"
    define slow' where "slow' = (if Key (tags ! slow) \<noteq> Key v then slow + 1 else slow)"
    have hx: "high < length xs" using True 1(2) by simp
    have v: "v = xs ! high"
    proof -
      have "hd (drop high tags) = tags ! high" using True by (simp add: hd_drop_conv_nth)
      moreover have "hd (drop high xs) = xs ! high" using hx by (simp add: hd_drop_conv_nth)
      ultimately show ?thesis using 1(7) v_def by simp
    qed
    have ne: "take high xs \<noteq> []" using 1(3) hx by auto
    have slowlen: "slow < length tags" using 1(5) True by simp
    have ts: "tags ! slow = last (take high xs)"
    proof -
      have "tags ! slow = last (take (Suc slow) tags)"
        using slowlen by (simp add: take_Suc_conv_app_nth)
      then show ?thesis using 1(6) keepLast_last [OF ne] by simp
    qed
    have snoc: "take (Suc high) xs = take high xs @ [v]"
      using hx v by (simp add: take_Suc_conv_app_nth)
    have kl: "keepLast (take (Suc high) xs) =
        (if Key (tags ! slow) = Key v then butlast (keepLast (take high xs)) @ [v]
         else keepLast (take high xs) @ [v])"
      unfolding snoc using keepLast_snoc [OF ne, of v] ts by simp
    have step: "take (Suc slow') (tags[slow' := v]) = keepLast (take (Suc high) xs)"
    proof (cases "Key (tags ! slow) = Key v")
      case eq: True
      then have s: "slow' = slow" by (simp add: slow'_def)
      have "take (Suc slow) (tags[slow := v]) = take slow tags @ [v]"
        using slowlen by (simp add: take_Suc_conv_app_nth)
      moreover have "butlast (keepLast (take high xs)) = take slow tags"
        using 1(6) [symmetric] slowlen by (simp add: butlast_take)
      ultimately show ?thesis using kl eq s by simp
    next
      case neq: False
      then have s: "slow' = Suc slow" by (simp add: slow'_def)
      have "Suc slow < length tags" using 1(5) True by simp
      then have "take (Suc (Suc slow)) (tags[Suc slow := v]) = take (Suc slow) tags @ [v]"
        by (simp add: take_Suc_conv_app_nth)
      then show ?thesis using kl neq s 1(6) by simp
    qed
    have sl: "slow' \<le> high" using 1(5) by (simp add: slow'_def)
    have dr: "drop (high + 1) (tags[slow' := v]) = drop (high + 1) xs"
    proof -
      have "drop (high + 1) (tags[slow' := v]) = drop (high + 1) tags"
        using sl by simp
      also have "\<dots> = drop 1 (drop high tags)" by simp
      also have "\<dots> = drop 1 (drop high xs)" using 1(7) by simp
      finally show ?thesis by simp
    qed
    have ih: "case deDupLoop (tags[slow' := v]) slow' (high + 1) of (tags', s') \<Rightarrow>
           take (Suc s') tags' = keepLast xs \<and> s' < length xs"
      using 1(1) [OF True slow'_def [unfolded v_def], folded v_def] 1(2) hx sl step dr
      by simp
    have "deDupLoop tags slow high = deDupLoop (tags[slow' := v]) slow' (high + 1)"
      using True by (subst deDupLoop.simps) (simp add: slow'_def v_def Let_def)
    then show ?thesis using ih by simp
  qed
qed


lemma deDupTags_keepLast:
  assumes "2 \<le> length tags" "length (sortKVs tags) = length tags"
  shows "deDupTags sortKVs tags = keepLast (sortKVs tags)"
proof -
  let ?xs = "sortKVs tags"
  have len: "2 \<le> length ?xs" using assms by simp
  then obtain x rest where xs: "?xs = x # rest" by (cases ?xs) auto
  have "take (Suc 0) ?xs = keepLast (take 1 ?xs)" by (simp add: xs)
  then have "case deDupLoop ?xs 0 1 of (tags', slow') \<Rightarrow>
           take (Suc slow') tags' = keepLast ?xs \<and> slow' < length ?xs"
    using len by (intro deDupLoop_keepLast) auto
  then show ?thesis using assms(1) by (auto simp: deDupTags_def split: prod.splits)
qed

text \<open>
  For a metric with at least two tags, and any sort that returns a permutation of the
  tags in ascending key order: after \<^verbatim>\<open>deDupTags\<close> the tag list is sorted by key, no key
  occurs twice, the keys are those of the input, and every tag that is kept is, among the
  tags with its key, the one at the highest index of the sorted list.
\<close>

lemma deDupTags_sorted_unique_last:
  assumes "2 \<le> length tags"
    and "mset (sortKVs tags) = mset tags"
    and "sorted (map Key (sortKVs tags))"
  shows "sorted (map Key (deDupTags sortKVs tags))
       \<and> distinct (map Key (deDupTags sortKVs tags))
       \<and> set (map Key (deDupTags sortKVs tags)) = set (map Key tags)
       \<and> (\<forall>kv \<in> set (deDupTags sortKVs tags).
             kv = last (filter (\<lambda>t. Key t = Key kv) (sortKVs tags)))"
proof -
  have len: "length (sortKVs tags) = length tags"
    using assms(2) by (metis size_mset)
  have eq: "deDupTags sortKVs tags = keepLast (sortKVs tags)"
    using assms(1) len by (rule deDupTags_keepLast [of tags sortKVs])
  have ks: "set (map Key (sortKVs tags)) = set (map Key tags)"
    using assms(2) by (metis mset_eq_setD set_map)
  show ?thesis
    unfolding eq
    using sorted_keepLast [OF assms(3)] distinct_keepLast [OF assms(3)]
      keys_keepLast [of "sortKVs tags"] ks keepLast_is_last [OF assms(3)]
    by blast
qed

lemma demo_sort: "sort_key Key demo_tags =
   [\<lparr>Key = ''app'', Value = ''db''\<rparr>, \<lparr>Key = ''host'', Value = ''client''\<rparr>,
    \<lparr>Key = ''host'', Value = ''enriched''\<rparr>, \<lparr>Key = ''region'', Value = ''eu''\<rparr>]"
  by (simp add: demo_tags_def)

lemma demo_dedup: "deDupTags (sort_key Key) demo_tags =
   [\<lparr>Key = ''app'', Value = ''db''\<rparr>,
    \<lparr>Key = ''host'', Value = ''enriched''\<rparr>, \<lparr>Key = ''region'', Value = ''eu''\<rparr>]"
  by (simp add: deDupTags_def demo_sort deDupLoop.simps) (simp add: demo_tags_def)

lemma deDupTags_sorted_unique_last_demo:
  "deDupTags (sort_key Key) demo_tags =
     [\<lparr>Key = ''app'', Value = ''db''\<rparr>, \<lparr>Key = ''host'', Value = ''enriched''\<rparr>,
      \<lparr>Key = ''region'', Value = ''eu''\<rparr>]
   \<and> sorted (map Key (deDupTags (sort_key Key) demo_tags))
   \<and> distinct (map Key (deDupTags (sort_key Key) demo_tags))
   \<and> set (map Key (deDupTags (sort_key Key) demo_tags)) = set (map Key demo_tags)
   \<and> \<lparr>Key = ''host'', Value = ''enriched''\<rparr>
        = last (filter (\<lambda>t. Key t = ''host'') (sort_key Key demo_tags))"
proof -
  have h1: "2 \<le> length demo_tags" by (simp add: demo_tags_def)
  have h2: "mset (sort_key Key demo_tags) = mset demo_tags" by (rule mset_sort)
  have h3: "sorted (map Key (sort_key Key demo_tags))" by (rule sorted_sort_key)
  have mem: "\<lparr>Key = ''host'', Value = ''enriched''\<rparr> \<in> set (deDupTags (sort_key Key) demo_tags)"
    by (simp add: demo_dedup)
  note t = deDupTags_sorted_unique_last [of demo_tags "sort_key Key", OF h1 h2 h3]
  from t have "\<forall>kv \<in> set (deDupTags (sort_key Key) demo_tags).
             kv = last (filter (\<lambda>t. Key t = Key kv) (sort_key Key demo_tags))" by blast
  from bspec [OF this mem] have
    "\<lparr>Key = ''host'', Value = ''enriched''\<rparr>
        = last (filter (\<lambda>t. Key t = ''host'') (sort_key Key demo_tags))" by simp
  then show ?thesis using t demo_dedup by blast
qed

text \<open>
  With a stable sort (insertion sort by key), the tag kept for a key is the last one with
  that key in the list as it was before sorting: a tag appended after the client's tags
  overrides the client's value for the same key.
\<close>

lemma deDupTags_stable_sort:
  assumes "2 \<le> length tags" "kv \<in> set (deDupTags (sort_key Key) tags)"
  shows "kv = last (filter (\<lambda>t. Key t = Key kv) tags)"
proof -
  have "deDupTags (sort_key Key) tags = keepLast (sort_key Key tags)"
    using assms(1) by (intro deDupTags_keepLast) simp_all
  then have "kv = last (filter (\<lambda>t. Key t = Key kv) (sort_key Key tags))"
    using assms(2) keepLast_is_last [of "sort_key Key tags" kv] by simp
  then show ?thesis by (simp add: sort_key_stable)
qed

lemma Sort13_demo: "Sort13 demo_tags13 = demo_sorted13"
  by (simp add: Sort13_def sortSwaps13_def Swap_def demo_tags13_def demo_sorted13_def)

lemma demo_sorted13_keys: "sorted (map Key demo_sorted13)"
  by (simp add: demo_sorted13_def)

lemma demo_sorted13_mset: "mset demo_sorted13 = mset demo_tags13"
  by (simp add: demo_sorted13_def demo_tags13_def)

lemma keepLast_demo13: "keepLast demo_sorted13 = tl demo_sorted13"
  by (simp add: demo_sorted13_def)

text \<open>
  C10. \<^verbatim>\<open>deDupTags\<close> on the thirteen tags of \<open>demo_tags13\<close>: the sort leaves a key-sorted
  permutation in which the appended tag for \<open>a\<close> stands before the client's, so the loop,
  which keeps the tag at the highest index, keeps the client's value and drops the appended
  one, although the appended tag is the last tag for \<open>a\<close> in the metric. The comment in the
  code (tags with the same key keep the order in which they were appended) does not hold
  for \<^verbatim>\<open>sort.Sort\<close>.
\<close>

theorem deDupTags_unstable_sort_keeps_client:
  "Sort13 demo_tags13 = demo_sorted13
   \<and> mset (Sort13 demo_tags13) = mset demo_tags13
   \<and> sorted (map Key (Sort13 demo_tags13))
   \<and> deDupTags Sort13 demo_tags13 = tl demo_sorted13
   \<and> last (filter (\<lambda>t. Key t = ''a'') demo_tags13) = \<lparr>Key = ''a'', Value = ''enriched''\<rparr>
   \<and> \<lparr>Key = ''a'', Value = ''client''\<rparr> \<in> set (deDupTags Sort13 demo_tags13)
   \<and> \<lparr>Key = ''a'', Value = ''enriched''\<rparr> \<notin> set (deDupTags Sort13 demo_tags13)"
proof -
  have len: "2 \<le> length demo_tags13" by (simp add: demo_tags13_def)
  have len2: "length (Sort13 demo_tags13) = length demo_tags13"
    by (simp add: Sort13_demo) (simp add: demo_sorted13_def demo_tags13_def)
  have d: "deDupTags Sort13 demo_tags13 = tl demo_sorted13"
    using deDupTags_keepLast [of demo_tags13 Sort13] len len2 by (simp add: Sort13_demo keepLast_demo13)
  have l: "last (filter (\<lambda>t. Key t = ''a'') demo_tags13) = \<lparr>Key = ''a'', Value = ''enriched''\<rparr>"
    by (simp add: demo_tags13_def)
  show ?thesis
    unfolding d Sort13_demo
    using demo_sorted13_keys demo_sorted13_mset l
    by (simp add: demo_sorted13_def)
qed

subsection \<open>The local replicator\<close>

lemma uint_four_plus:
  fixes sz :: "32 word"
  assumes "4 + unat sz < 2 ^ 32"
  shows "uint (4 + sz) = 4 + int (unat sz)"
proof -
  have "int (4 + unat sz) < int (2 ^ 32)" using assms by (rule iffD2 [OF of_nat_less_iff])
  then have "uint (4 :: 32 word) + uint sz < 2 ^ LENGTH(32)" by simp
  then have "uint (4 + sz) = uint (4 :: 32 word) + uint sz"
    by (rule uint_add_lem [THEN iffD1])
  then show ?thesis by simp
qed

lemma UnmarshalRows_loop_frames:
  assumes "frames block = Some rs" "appendIndex br \<le> length (rows br)"
  shows "\<exists>br'. UnmarshalRows_loop br block spare = Done br'
           \<and> take (appendIndex br') (rows br') = take (appendIndex br) (rows br) @ rs
           \<and> appendIndex br' = appendIndex br + length rs
           \<and> appendIndex br' \<le> length (rows br')"
  using assms
proof (induction block arbitrary: rs br rule: frames.induct)
  case (1 block)
  show ?case
  proof (cases "block = []")
    case True
    then have "rs = []" using "1.prems"(1) by (simp add: frames.simps)
    moreover have "UnmarshalRows_loop br block spare = Done br"
      using True by (simp add: UnmarshalRows_loop.simps)
    ultimately show ?thesis using "1.prems"(2) by simp
  next
    case False
    from "1.prems"(1) False obtain sz where sz: "Uint32 block = Some sz"
      by (subst (asm) frames.simps) (auto split: option.splits)
    from "1.prems"(1) False sz have ok: "\<not> (unat sz < 4 \<or> 2 ^ 32 \<le> 4 + unat sz \<or> length block < 4 + unat sz)"
      by (subst (asm) frames.simps) (auto split: if_splits)
    define n where "n = unat sz"
    have n: "4 \<le> n" "4 + n < 2 ^ 32" "4 + n \<le> length block"
      using ok by (simp_all add: n_def)
    define data where "data = take n (drop 4 block)"
    define rest where "rest = drop (4 + n) block"
    from "1.prems"(1) False sz ok obtain rs' where rs': "frames rest = Some rs'" "rs = data # rs'"
      by (subst (asm) frames.simps) (auto simp: data_def rest_def n_def)
    have u: "uint (4 + sz) = 4 + int n"
      unfolding n_def using n(2) [unfolded n_def] by (rule uint_four_plus)
    have sl: "slice_range (block @ spare) 4 (uint (4 + sz)) = Some data"
      unfolding u using n by (simp add: slice_range_def data_def)
    have sf: "slice_from block (uint (4 + sz)) = Some rest"
      unfolding u using n by (simp add: slice_from_def rest_def nat_add_distrib)
    have ld: "\<not> length data < 4" using n by (simp add: data_def)
    define br1 where "br1 = (if appendIndex br < length (rows br)
      then br\<lparr>rows := (rows br)[appendIndex br := data], appendIndex := appendIndex br + 1\<rparr>
      else br\<lparr>rows := rows br @ [data], appendIndex := appendIndex br + 1\<rparr>)"
    have ba: "batch_append br data = Done br1"
      using ld by (simp add: batch_append_def br1_def)
    have inv1: "appendIndex br1 \<le> length (rows br1)"
      using "1.prems"(2) by (simp add: br1_def)
    have tk1: "take (appendIndex br1) (rows br1) = take (appendIndex br) (rows br) @ [data]"
      using "1.prems"(2) by (auto simp: br1_def take_Suc_conv_app_nth)
    have ai1: "appendIndex br1 = appendIndex br + 1" by (simp add: br1_def)
    from "1.IH" [OF False sz ok rs'(1) [unfolded rest_def n_def] inv1]
    obtain br' where br': "UnmarshalRows_loop br1 rest spare = Done br'"
      "take (appendIndex br') (rows br') = take (appendIndex br1) (rows br1) @ rs'"
      "appendIndex br' = appendIndex br1 + length rs'"
      "appendIndex br' \<le> length (rows br')"
      unfolding rest_def n_def by blast
    have "UnmarshalRows_loop br block spare = UnmarshalRows_loop br1 rest spare"
      using False sz sl ba sf by (subst UnmarshalRows_loop.simps) simp
    then show ?thesis using br' tk1 ai1 rs'(2) by simp
  qed
qed

lemma UnmarshalRows_frames:
  assumes "frames block = Some rs"
  shows "\<exists>br'. UnmarshalRows br block spare = Done br' \<and> Rows br' = rs \<and> Len br' = length rs"
proof -
  have "appendIndex (br\<lparr>appendIndex := 0\<rparr>) \<le> length (rows (br\<lparr>appendIndex := 0\<rparr>))" by simp
  from UnmarshalRows_loop_frames [OF assms this]
  show ?thesis by (auto simp: UnmarshalRows_def Rows_def Len_def)
qed


text \<open>
  A block whose size prefix announces twelve bytes where eight are left. With four spare
  bytes behind the block the row is appended, reaching into them, before the re-slice
  panics; with no spare byte the slice expression of the row panics first.
\<close>

lemma UnmarshalRows_into_spare:
  "UnmarshalRows NewStorageBatchRows [12, 0, 0, 0, 1, 2, 3, 4, 5, 6, 7, 8] [9, 10, 11, 12]
     = Panicked \<lparr>rows = [[1, 2, 3, 4, 5, 6, 7, 8, 9, 10, 11, 12]], appendIndex = 1\<rparr>"
  by (simp add: UnmarshalRows_def UnmarshalRows_loop.simps NewStorageBatchRows_def
      Uint32_def slice_range_def slice_from_def batch_append_def)

lemma UnmarshalRows_no_spare:
  "UnmarshalRows NewStorageBatchRows [12, 0, 0, 0, 1, 2, 3, 4, 5, 6, 7, 8] []
     = Panicked \<lparr>rows = [], appendIndex = 0\<rparr>"
  by (simp add: UnmarshalRows_def UnmarshalRows_loop.simps NewStorageBatchRows_def
      Uint32_def slice_range_def slice_from_def batch_append_def)

lemma deferred_commitCalls:
  "commitCalls (family (Replica_deferred b sequence r))
     = commitCalls (family r) @ [(leader r, sequence)]"
  by (simp add: Replica_deferred_def CommitSequence_def Let_def)

lemma deferred_writeCalls:
  "writeCalls (family (Replica_deferred b sequence r)) = writeCalls (family r)"
  by (simp add: Replica_deferred_def CommitSequence_def Let_def)

lemma deferred_ignored:
  "ignoredMessages (Replica_deferred b sequence r)
     = (if b then ignoredMessages r @ [sequence] else ignoredMessages r)"
  by (simp add: Replica_deferred_def Let_def)

lemma Replica_valid_commitCalls:
  assumes "ValidateSequence (family r) (leader r) sequence"
  shows "commitCalls (family (state_of (Replica E r sequence msg)))
     = commitCalls (family r) @ [(leader r, sequence)]"
  using assms
  by (auto simp: Replica_def Let_def deferred_commitCalls WriteRows_def
      split: sum.splits partial.splits write_result.splits)

text \<open>
  C1. For every call of \<^verbatim>\<open>Replica\<close>: if \<^verbatim>\<open>ValidateSequence\<close> is false, the call returns
  with only the invalid-sequence counter changed, so no rows are written and no sequence is
  committed. Otherwise the calls of \<^verbatim>\<open>CommitSequence\<close> recorded by the family grow by
  exactly one, \<open>(leader, sequence)\<close>, whatever branch the call takes (also when it panics).
  In particular, when decompression fails the call returns, writes nothing, marks the
  message ignored and commits; when \<^verbatim>\<open>WriteRows\<close> returns an error the call returns and
  commits.
\<close>

theorem Replica_commits_exactly_once:
  "(\<not> ValidateSequence (family r) (leader r) sequence \<longrightarrow>
      Replica E r sequence msg
        = Done (r\<lparr>statistics := (statistics r)\<lparr>InvalidSequence :=
                     InvalidSequence (statistics r) + 1\<rparr>\<rparr>)
      \<and> writeCalls (family (state_of (Replica E r sequence msg))) = writeCalls (family r)
      \<and> commitCalls (family (state_of (Replica E r sequence msg))) = commitCalls (family r)
      \<and> replicaSeq (family (state_of (Replica E r sequence msg))) = replicaSeq (family r))
   \<and> (ValidateSequence (family r) (leader r) sequence \<longrightarrow>
      commitCalls (family (state_of (Replica E r sequence msg)))
        = commitCalls (family r) @ [(leader r, sequence)])
   \<and> (ValidateSequence (family r) (leader r) sequence \<and> Uncompress E msg = Inl e \<longrightarrow>
      \<not> panicked (Replica E r sequence msg)
      \<and> writeCalls (family (state_of (Replica E r sequence msg))) = writeCalls (family r)
      \<and> ignoredMessages (state_of (Replica E r sequence msg)) = ignoredMessages r @ [sequence]
      \<and> commitCalls (family (state_of (Replica E r sequence msg)))
        = commitCalls (family r) @ [(leader r, sequence)])
   \<and> (ValidateSequence (family r) (leader r) sequence \<and> Uncompress E msg = Inr block
       \<and> UnmarshalRows (batchRows r) block (spareCapacity E msg) = Done br \<and> Len br \<noteq> 0
       \<and> writeOutcome E (Rows br) = WriteErr \<longrightarrow>
      \<not> panicked (Replica E r sequence msg)
      \<and> writeCalls (family (state_of (Replica E r sequence msg)))
        = writeCalls (family r) @ [Rows br]
      \<and> commitCalls (family (state_of (Replica E r sequence msg)))
        = commitCalls (family r) @ [(leader r, sequence)])"
proof (intro conjI impI)
  assume "\<not> ValidateSequence (family r) (leader r) sequence"
  then show "Replica E r sequence msg
        = Done (r\<lparr>statistics := (statistics r)\<lparr>InvalidSequence :=
                     InvalidSequence (statistics r) + 1\<rparr>\<rparr>)"
    "writeCalls (family (state_of (Replica E r sequence msg))) = writeCalls (family r)"
    "commitCalls (family (state_of (Replica E r sequence msg))) = commitCalls (family r)"
    "replicaSeq (family (state_of (Replica E r sequence msg))) = replicaSeq (family r)"
    by (simp_all add: Replica_def)
next
  assume "ValidateSequence (family r) (leader r) sequence"
  then show "commitCalls (family (state_of (Replica E r sequence msg)))
        = commitCalls (family r) @ [(leader r, sequence)]"
    by (rule Replica_valid_commitCalls)
next
  assume a: "ValidateSequence (family r) (leader r) sequence \<and> Uncompress E msg = Inl e"
  then show "\<not> panicked (Replica E r sequence msg)"
    "writeCalls (family (state_of (Replica E r sequence msg))) = writeCalls (family r)"
    "ignoredMessages (state_of (Replica E r sequence msg)) = ignoredMessages r @ [sequence]"
    by (simp_all add: Replica_def deferred_writeCalls deferred_ignored)
  from a show "commitCalls (family (state_of (Replica E r sequence msg)))
        = commitCalls (family r) @ [(leader r, sequence)]"
    by (simp add: Replica_valid_commitCalls)
next
  assume a: "ValidateSequence (family r) (leader r) sequence \<and> Uncompress E msg = Inr block
       \<and> UnmarshalRows (batchRows r) block (spareCapacity E msg) = Done br \<and> Len br \<noteq> 0
       \<and> writeOutcome E (Rows br) = WriteErr"
  then show "\<not> panicked (Replica E r sequence msg)"
    "writeCalls (family (state_of (Replica E r sequence msg)))
        = writeCalls (family r) @ [Rows br]"
    by (simp_all add: Replica_def Let_def WriteRows_def deferred_writeCalls)
  from a show "commitCalls (family (state_of (Replica E r sequence msg)))
        = commitCalls (family r) @ [(leader r, sequence)]"
    by (simp add: Replica_valid_commitCalls)
qed

lemma Replica_writeCalls_frames:
  assumes "ValidateSequence (family r) (leader r) sequence"
    and "Uncompress E msg = Inr block"
    and "frames block = Some rs"
    and "rs \<noteq> []"
  shows "writeCalls (family (state_of (Replica E r sequence msg))) = writeCalls (family r) @ [rs]"
proof -
  from UnmarshalRows_frames [OF assms(3)] obtain br' where
    br': "UnmarshalRows (batchRows r) block (spareCapacity E msg) = Done br'" "Rows br' = rs"
      "Len br' = length rs"
    by blast
  then have "Len br' \<noteq> 0" using assms(4) by simp
  then show ?thesis
    using assms(1,2) br'
    by (auto simp: Replica_def Let_def WriteRows_def deferred_writeCalls
        split: write_result.splits)
qed


text \<open>
  C5, as amended. For a valid sequence and a payload that decompresses to a non-empty
  sequence of size-prefixed rows, \<^verbatim>\<open>WriteRows\<close> is invoked once, on the rows in the
  order in which they appear in the payload. \<^verbatim>\<open>Replica\<close> does not sort the batch.
\<close>

theorem Replica_writes_rows_in_block_order:
  assumes "ValidateSequence (family r) (leader r) sequence"
    and "Uncompress E msg = Inr block"
    and "frames block = Some rs"
    and "rs \<noteq> []"
  shows "writeCalls (family (state_of (Replica E r sequence msg))) = writeCalls (family r) @ [rs]"
  using assms by (rule Replica_writeCalls_frames)

lemma demo_frames: "frames demo_block = Some [demo_rowA, demo_rowB]"
  by (simp add: frames.simps demo_block_def demo_rowA_def demo_rowB_def Uint32_def)

lemma demo_unmarshal:
  "UnmarshalRows NewStorageBatchRows demo_block (spareCapacity demo_env demo_block)
     = Done \<lparr>rows = [demo_rowA, demo_rowB], appendIndex = 2\<rparr>"
  by (simp add: UnmarshalRows_def UnmarshalRows_loop.simps NewStorageBatchRows_def
      demo_block_def demo_rowA_def demo_rowB_def Uint32_def slice_range_def slice_from_def
      batch_append_def demo_env_def)

lemma demo_valid: "ValidateSequence (family demo_replicator) (leader demo_replicator) 7"
  by (simp add: ValidateSequence_def demo_replicator_def)

lemma demo_uncompress: "Uncompress demo_env demo_block = Inr demo_block"
  by (simp add: demo_env_def demo_block_def)

lemma demo_writeCalls:
  "writeCalls (family (state_of (Replica demo_env demo_replicator 7 demo_block)))
     = [[demo_rowA, demo_rowB]]"
  using Replica_writeCalls_frames [OF demo_valid demo_uncompress demo_frames]
  by (simp add: demo_replicator_def)

text \<open>
  C5, as stated, fails: a payload whose first row has the later timestamp reaches
  \<^verbatim>\<open>WriteRows\<close> with that row first.
\<close>

theorem Replica_unsorted_batch:
  "writeCalls (family (state_of (Replica demo_env demo_replicator 7 demo_block)))
     = [[demo_rowA, demo_rowB]]
   \<and> map demo_Timestamp [demo_rowA, demo_rowB] = [2, 1]
   \<and> \<not> sorted (map demo_Timestamp
          (last (writeCalls (family (state_of (Replica demo_env demo_replicator 7 demo_block))))))"
proof -
  have t: "map demo_Timestamp [demo_rowA, demo_rowB] = [2, 1]"
    by (simp add: demo_Timestamp_def demo_rowA_def demo_rowB_def)
  show ?thesis unfolding demo_writeCalls using t by simp
qed

theorem Replica_writes_rows_in_block_order_witness:
  "writeCalls (family (state_of (Replica demo_env demo_replicator 7 demo_block)))
     = writeCalls (family demo_replicator) @ [[demo_rowA, demo_rowB]]"
  using Replica_writes_rows_in_block_order [OF demo_valid demo_uncompress demo_frames]
  by simp


lemma demo_invalid: "\<not> ValidateSequence (family demo_replicator) (leader demo_replicator) 9"
  by (simp add: ValidateSequence_def demo_replicator_def)

lemma demo_uncompress_fails: "Uncompress demo_env [] = Inl ()"
  by (simp add: demo_env_def)

lemma demo_uncompress1: "Uncompress demo_env demo_block1 = Inr demo_block1"
  by (simp add: demo_env_def demo_block1_def)

lemma demo_unmarshal1:
  "UnmarshalRows (batchRows demo_replicator) demo_block1 (spareCapacity demo_env demo_block1)
     = Done \<lparr>rows = [demo_rowA], appendIndex = 1\<rparr>"
  by (simp add: UnmarshalRows_def UnmarshalRows_loop.simps NewStorageBatchRows_def
      demo_block1_def demo_rowA_def Uint32_def slice_range_def slice_from_def
      batch_append_def demo_replicator_def demo_env_def)

lemma demo_write_fails:
  "Len \<lparr>rows = [demo_rowA], appendIndex = 1\<rparr> \<noteq> 0"
  "writeOutcome demo_env (Rows \<lparr>rows = [demo_rowA], appendIndex = 1\<rparr>) = WriteErr"
  "Rows \<lparr>rows = [demo_rowA], appendIndex = 1\<rparr> = [demo_rowA]"
  by (simp_all add: Len_def Rows_def demo_env_def)

lemma demo_replicator_fields:
  "leader demo_replicator = 1" "commitCalls (family demo_replicator) = []"
  "writeCalls (family demo_replicator) = []" "ignoredMessages demo_replicator = []"
  by (simp_all add: demo_replicator_def)

theorem Replica_commits_exactly_once_witness:
  "Replica demo_env demo_replicator 9 demo_block
      = Done (demo_replicator\<lparr>statistics := (statistics demo_replicator)\<lparr>InvalidSequence :=
                     InvalidSequence (statistics demo_replicator) + 1\<rparr>\<rparr>)
   \<and> commitCalls (family (state_of (Replica demo_env demo_replicator 7 demo_block))) = [(1, 7)]
   \<and> \<not> panicked (Replica demo_env demo_replicator 7 [])
   \<and> writeCalls (family (state_of (Replica demo_env demo_replicator 7 []))) = []
   \<and> ignoredMessages (state_of (Replica demo_env demo_replicator 7 [])) = [7]
   \<and> commitCalls (family (state_of (Replica demo_env demo_replicator 7 []))) = [(1, 7)]
   \<and> \<not> panicked (Replica demo_env demo_replicator 7 demo_block1)
   \<and> writeCalls (family (state_of (Replica demo_env demo_replicator 7 demo_block1)))
        = [[demo_rowA]]
   \<and> commitCalls (family (state_of (Replica demo_env demo_replicator 7 demo_block1)))
        = [(1, 7)]"
proof -
  note t1 = Replica_commits_exactly_once [where r = demo_replicator and E = demo_env
      and sequence = 9 and msg = demo_block, THEN conjunct1, rule_format, OF demo_invalid]
  note t2 = Replica_commits_exactly_once [where r = demo_replicator and E = demo_env
      and sequence = 7 and msg = demo_block, THEN conjunct2, THEN conjunct1, rule_format,
      OF demo_valid]
  note t3 = Replica_commits_exactly_once [where r = demo_replicator and E = demo_env
      and sequence = 7 and msg = "[]" and e = "()", THEN conjunct2, THEN conjunct2,
      THEN conjunct1, rule_format, OF conjI [OF demo_valid demo_uncompress_fails]]
  note t4 = Replica_commits_exactly_once [where r = demo_replicator and E = demo_env
      and sequence = 7 and msg = demo_block1 and block = demo_block1
      and br = "\<lparr>rows = [demo_rowA], appendIndex = 1\<rparr>",
      THEN conjunct2, THEN conjunct2, THEN conjunct2, rule_format,
      OF conjI [OF demo_valid conjI [OF demo_uncompress1 conjI [OF demo_unmarshal1
        conjI [OF demo_write_fails(1) demo_write_fails(2)]]]]]
  show ?thesis
    using t1 t2 t3 t4 by (simp add: demo_replicator_fields Rows_def Len_def)
qed

subsection \<open>The field aggregator\<close>

lemma AggregateBySlot_loop_frame:
  "aggTypes (state_of (AggregateBySlot_loop ops a pos val idx ts)) = aggTypes a
   \<and> start (state_of (AggregateBySlot_loop ops a pos val idx ts)) = start a
   \<and> end' (state_of (AggregateBySlot_loop ops a pos val idx ts)) = end' a
   \<and> segmentStartTime (state_of (AggregateBySlot_loop ops a pos val idx ts)) = segmentStartTime a
   \<and> length (fieldSeriesList (state_of (AggregateBySlot_loop ops a pos val idx ts)))
       = length (fieldSeriesList a)"
  by (induction ts arbitrary: a idx) (auto simp: Let_def)

lemma aggregateInto_frame:
  "start b = start a \<Longrightarrow> end' b = end' a \<Longrightarrow>
     aggregateInto ops b t vs pos val = aggregateInto ops a t vs pos val"
  by (simp add: aggregateInto_def split: option.splits)

lemma AggregateBySlot_loop_result:
  assumes "idx + length ts \<le> length (fieldSeriesList a)"
  shows "\<exists>a'. AggregateBySlot_loop ops a pos val idx ts = Done a'
     \<and> (\<forall>i < length (fieldSeriesList a).
           fieldSeriesList a' ! i =
             (if idx \<le> i \<and> i < idx + length ts
              then Some (aggregateInto ops a (ts ! (i - idx)) (fieldSeriesList a ! i) pos val)
              else fieldSeriesList a ! i))"
  using assms
proof (induction ts arbitrary: a idx)
  case Nil
  then show ?case by auto
next
  case (Cons t ts)
  define vs where "vs = aggregateInto ops a t (fieldSeriesList a ! idx) pos val"
  define b where "b = a\<lparr>fieldSeriesList := (fieldSeriesList a)[idx := Some vs]\<rparr>"
  have lt: "idx < length (fieldSeriesList a)" using Cons.prems by simp
  have lb: "length (fieldSeriesList b) = length (fieldSeriesList a)" by (simp add: b_def)
  have "Suc idx + length ts \<le> length (fieldSeriesList b)" using Cons.prems lb by simp
  from Cons.IH [OF this] obtain a' where
    a': "AggregateBySlot_loop ops b pos val (Suc idx) ts = Done a'"
    and nth: "\<forall>i < length (fieldSeriesList b).
           fieldSeriesList a' ! i =
             (if Suc idx \<le> i \<and> i < Suc idx + length ts
              then Some (aggregateInto ops b (ts ! (i - Suc idx)) (fieldSeriesList b ! i) pos val)
              else fieldSeriesList b ! i)" by blast
  have step: "AggregateBySlot_loop ops a pos val idx (t # ts) = Done a'"
    using lt a' by (simp add: Let_def b_def vs_def)
  have fr: "\<And>t' v. aggregateInto ops b t' v pos val = aggregateInto ops a t' v pos val"
    by (rule aggregateInto_frame) (simp_all add: b_def)
  have "\<forall>i < length (fieldSeriesList a).
           fieldSeriesList a' ! i =
             (if idx \<le> i \<and> i < idx + length (t # ts)
              then Some (aggregateInto ops a ((t # ts) ! (i - idx)) (fieldSeriesList a ! i) pos val)
              else fieldSeriesList a ! i)"
  proof (intro allI impI)
    fix i assume i: "i < length (fieldSeriesList a)"
    show "fieldSeriesList a' ! i =
             (if idx \<le> i \<and> i < idx + length (t # ts)
              then Some (aggregateInto ops a ((t # ts) ! (i - idx)) (fieldSeriesList a ! i) pos val)
              else fieldSeriesList a ! i)"
    proof (cases "i = idx")
      case True
      then show ?thesis using nth i lb lt by (simp add: b_def vs_def)
    next
      case False
      then have "fieldSeriesList b ! i = fieldSeriesList a ! i" by (simp add: b_def)
      moreover have "idx < i \<Longrightarrow> (t # ts) ! (i - idx) = ts ! (i - Suc idx)"
        by (simp add: nth_Cons')
      ultimately show ?thesis using nth i lb False fr by auto
    qed
  qed
  then show ?case using step by blast
qed


lemma stored_HasValue: "HasValue vs pos \<longleftrightarrow> stored (Some vs) pos \<noteq> None"
  by (simp add: HasValue_def stored_def)

lemma stored_GetValue: "stored (Some vs) pos = Some v \<Longrightarrow> GetValue ops vs pos = v"
  by (auto simp: GetValue_def stored_def split: if_splits)

lemma stored_SetValue:
  "stored (Some (SetValue vs pos v)) p =
     (if checkPos vs pos \<and> p = pos then Some v else stored (Some vs) p)"
  by (auto simp: stored_def SetValue_def checkPos_def nth_list_update)

lemma stored_NewFloatArray: "stored (Some (NewFloatArray c)) p = None"
  by (auto simp: stored_def NewFloatArray_def checkPos_def)

lemma aggregateInto_stored:
  assumes "start a \<le> slot" "slot \<le> end' a"
    and "\<forall>vs. values = Some vs \<longrightarrow> int (length vs) = end' a - start a + 1"
  shows "stored (Some (aggregateInto ops a t values (slot - start a) val)) p =
     (if p = slot - start a
      then Some (case stored values p of None \<Rightarrow> val | Some old \<Rightarrow> Aggregate ops t old val)
      else stored values p)"
proof (cases "values")
  case None
  have "checkPos (NewFloatArray (end' a - start a + 1) :: 'a FloatArray) (slot - start a)"
    using assms(1,2) by (simp add: checkPos_def NewFloatArray_def)
  then show ?thesis
    using None by (simp add: aggregateInto_def stored_SetValue stored_NewFloatArray)
      (simp add: stored_def)
next
  case (Some vs)
  then have cp: "checkPos vs (slot - start a)"
    using assms by (simp add: checkPos_def)
  show ?thesis
  proof (cases "stored (Some vs) (slot - start a)")
    case None
    then have "\<not> HasValue vs (slot - start a)" by (simp add: stored_HasValue)
    then show ?thesis using Some None cp by (simp add: aggregateInto_def stored_SetValue)
  next
    case (Some old)
    then have "HasValue vs (slot - start a)" by (simp add: stored_HasValue)
    moreover have "GetValue ops vs (slot - start a) = old" using Some by (rule stored_GetValue)
    ultimately show ?thesis
      using \<open>values = Some vs\<close> Some cp by (simp add: aggregateInto_def stored_SetValue)
  qed
qed

lemma aggregateInto_outside:
  assumes "slot < start a \<or> end' a < slot"
    and "\<forall>vs. series = Some vs \<longrightarrow> int (length vs) = end' a - start a + 1"
  shows "stored (Some (aggregateInto ops a t series (slot - start a) val)) p = stored series p"
proof (cases series)
  case None
  have "\<not> checkPos (NewFloatArray (end' a - start a + 1) :: 'a FloatArray) (slot - start a)"
    using assms(1) by (auto simp: checkPos_def NewFloatArray_def)
  then show ?thesis
    using None
    by (simp add: aggregateInto_def stored_SetValue stored_NewFloatArray) (simp add: stored_def)
next
  case (Some vs)
  then have "\<not> checkPos vs (slot - start a)"
    using assms by (auto simp: checkPos_def)
  then show ?thesis
    using Some by (simp add: aggregateInto_def SetValue_def HasValue_def)
qed

text \<open>
  C8, as amended. A value of positive infinity leaves the aggregator unchanged, for every
  slot. Any other value (on an aggregator with one series entry per aggregation type)
  replaces the array of every aggregation type by the result of one loop iteration, and
  changes nothing else. For a slot of the range \<open>[start, end]\<close> and a series that is nil
  or has the size of the range, that iteration leaves at the slot's position
  \<open>Aggregate(old, value)\<close> when the position held \<open>old\<close> and the incoming value when it
  was empty, and leaves every other position as it was. For a slot outside the range the
  iteration stores nothing: every position holds what it held. \<open>Aggregate\<close> adds for
  \<open>Sum\<close>, takes the minimum for \<open>Min'\<close> and the maximum for \<open>Max'\<close>.
\<close>

theorem AggregateBySlot_aggregates:
  "(IsPosInf ops val \<longrightarrow> AggregateBySlot ops a slot val = Done a)
   \<and> (\<not> IsPosInf ops val \<and> length (fieldSeriesList a) = length (aggTypes a) \<longrightarrow>
        (\<exists>a'. AggregateBySlot ops a slot val = Done a'
           \<and> aggTypes a' = aggTypes a \<and> segmentStartTime a' = segmentStartTime a
           \<and> start a' = start a \<and> end' a' = end' a
           \<and> length (fieldSeriesList a') = length (aggTypes a)
           \<and> (\<forall>idx < length (aggTypes a).
                 fieldSeriesList a' ! idx
                   = Some (aggregateInto ops a (aggTypes a ! idx) (fieldSeriesList a ! idx)
                             (slot - start a) val))))
   \<and> (start a \<le> slot \<and> slot \<le> end' a
        \<and> (\<forall>vs. series = Some vs \<longrightarrow> int (length vs) = end' a - start a + 1) \<longrightarrow>
        stored (Some (aggregateInto ops a aggType series (slot - start a) val)) (slot - start a)
          = Some (case stored series (slot - start a) of
                    None \<Rightarrow> val
                  | Some old \<Rightarrow> Aggregate ops aggType old val)
        \<and> (\<forall>p. p \<noteq> slot - start a \<longrightarrow>
              stored (Some (aggregateInto ops a aggType series (slot - start a) val)) p
                = stored series p))
   \<and> ((slot < start a \<or> end' a < slot)
        \<and> (\<forall>vs. series = Some vs \<longrightarrow> int (length vs) = end' a - start a + 1) \<longrightarrow>
        (\<forall>p. stored (Some (aggregateInto ops a aggType series (slot - start a) val)) p
               = stored series p))
   \<and> Aggregate ops Sum x y = fadd ops x y
   \<and> Aggregate ops Min' x y = fmin ops x y
   \<and> Aggregate ops Max' x y = fmax ops x y"
proof (intro conjI impI)
  assume "IsPosInf ops val"
  then show "AggregateBySlot ops a slot val = Done a" by (simp add: AggregateBySlot_def)
next
  assume h: "\<not> IsPosInf ops val \<and> length (fieldSeriesList a) = length (aggTypes a)"
  then have "0 + length (aggTypes a) \<le> length (fieldSeriesList a)" by simp
  from AggregateBySlot_loop_result [OF this, of ops "slot - start a" val]
  obtain a' where a': "AggregateBySlot_loop ops a (slot - start a) val 0 (aggTypes a) = Done a'"
    and nth: "\<forall>i < length (fieldSeriesList a).
           fieldSeriesList a' ! i =
             (if 0 \<le> i \<and> i < 0 + length (aggTypes a)
              then Some (aggregateInto ops a (aggTypes a ! (i - 0)) (fieldSeriesList a ! i)
                           (slot - start a) val)
              else fieldSeriesList a ! i)" by blast
  have fr: "aggTypes a' = aggTypes a" "segmentStartTime a' = segmentStartTime a"
    "start a' = start a" "end' a' = end' a"
    "length (fieldSeriesList a') = length (fieldSeriesList a)"
    using AggregateBySlot_loop_frame [of ops a "slot - start a" val 0 "aggTypes a"] a'
    by simp_all
  have run: "AggregateBySlot ops a slot val = Done a'"
    using h a' by (simp add: AggregateBySlot_def Let_def)
  show "\<exists>a'. AggregateBySlot ops a slot val = Done a'
           \<and> aggTypes a' = aggTypes a \<and> segmentStartTime a' = segmentStartTime a
           \<and> start a' = start a \<and> end' a' = end' a
           \<and> length (fieldSeriesList a') = length (aggTypes a)
           \<and> (\<forall>idx < length (aggTypes a).
                 fieldSeriesList a' ! idx
                   = Some (aggregateInto ops a (aggTypes a ! idx) (fieldSeriesList a ! idx)
                             (slot - start a) val))"
    using run fr nth h by (intro exI [of _ a']) simp
next
  assume h: "start a \<le> slot \<and> slot \<le> end' a
        \<and> (\<forall>vs. series = Some vs \<longrightarrow> int (length vs) = end' a - start a + 1)"
  then have s: "\<And>p. stored (Some (aggregateInto ops a aggType series (slot - start a) val)) p =
     (if p = slot - start a
      then Some (case stored series p of None \<Rightarrow> val | Some old \<Rightarrow> Aggregate ops aggType old val)
      else stored series p)"
    by (intro aggregateInto_stored) simp_all
  show "stored (Some (aggregateInto ops a aggType series (slot - start a) val)) (slot - start a)
          = Some (case stored series (slot - start a) of
                    None \<Rightarrow> val
                  | Some old \<Rightarrow> Aggregate ops aggType old val)"
    by (simp add: s)
  show "\<forall>p. p \<noteq> slot - start a \<longrightarrow>
              stored (Some (aggregateInto ops a aggType series (slot - start a) val)) p
                = stored series p"
    by (simp add: s)
next
  assume "(slot < start a \<or> end' a < slot)
        \<and> (\<forall>vs. series = Some vs \<longrightarrow> int (length vs) = end' a - start a + 1)"
  then show "\<forall>p. stored (Some (aggregateInto ops a aggType series (slot - start a) val)) p
               = stored series p"
    using aggregateInto_outside [of slot a series ops aggType val] by blast
qed simp_all

lemma demo_agg_fields:
  "aggTypes demo_agg = [Sum, Max']" "start demo_agg = 10" "end' demo_agg = 12"
  "fieldSeriesList demo_agg = [Some [None, Some 5, None], None]"
  by (simp_all add: demo_agg_def)

lemma demo_ops_fields:
  "IsPosInf demo_ops v = (v = \<infinity>)" "fadd demo_ops = (+)" "fmax demo_ops = max"
  by (simp_all add: demo_ops_def)

lemma demo_aggregateInto:
  "aggregateInto demo_ops demo_agg Sum (Some [None, Some 5, None]) 1 3 = [None, Some 8, None]"
  "aggregateInto demo_ops demo_agg Max' None 1 3 = [None, Some 3, None]"
  by (simp_all add: aggregateInto_def demo_ops_def demo_agg_def HasValue_def checkPos_def
      GetValue_def SetValue_def NewFloatArray_def numeral_3_eq_3)

text \<open>
  C8, as stated, fails for a slot beyond the range: slot 13 of the range 10 to 12 has no
  position; the \<open>Sum\<close> series is left as it was and the \<open>Max'\<close> series is allocated
  empty, so the incoming value 3 is stored nowhere.
\<close>

theorem AggregateBySlot_slot_too_large:
  "\<not> IsPosInf demo_ops 3
   \<and> AggregateBySlot demo_ops demo_agg 13 3
       = Done (demo_agg\<lparr>fieldSeriesList :=
                 [Some [None, Some 5, None], Some [None, None, None]]\<rparr>)
   \<and> stored (Some [None, Some 5, None]) (13 - 10) = (None :: enat option)
   \<and> stored (Some [None, None, None]) (13 - 10) = (None :: enat option)"
  by (simp add: AggregateBySlot_def demo_ops_def demo_agg_def aggregateInto_def HasValue_def
      checkPos_def GetValue_def SetValue_def NewFloatArray_def Let_def numeral_3_eq_3
      stored_def)

theorem AggregateBySlot_aggregates_witness:
  "AggregateBySlot demo_ops demo_agg 11 \<infinity> = Done demo_agg
   \<and> (\<exists>a'. AggregateBySlot demo_ops demo_agg 11 3 = Done a'
          \<and> fieldSeriesList a' ! 0 = Some [None, Some 8, None]
          \<and> fieldSeriesList a' ! 1 = Some [None, Some 3, None])
   \<and> stored (Some (aggregateInto demo_ops demo_agg Sum (Some [None, Some 5, None]) (11 - 10) 3))
        (11 - 10) = Some (5 + 3)
   \<and> stored (Some (aggregateInto demo_ops demo_agg Max' None (11 - 10) 3)) (11 - 10) = Some 3
   \<and> stored (Some (aggregateInto demo_ops demo_agg Sum (Some [None, Some 5, None]) (13 - 10) 3)) 1
        = Some 5"
proof -
  note t1 = AggregateBySlot_aggregates [where ops = demo_ops and a = demo_agg and slot = 11
      and val = "\<infinity>", THEN conjunct1, rule_format]
  note t2 = AggregateBySlot_aggregates [where ops = demo_ops and a = demo_agg and slot = 11
      and val = 3, THEN conjunct2, THEN conjunct1, rule_format]
  note t3 = AggregateBySlot_aggregates [where ops = demo_ops and a = demo_agg and slot = 11
      and val = 3 and aggType = Sum and series = "Some [None, Some 5, None]",
      THEN conjunct2, THEN conjunct2, THEN conjunct1, rule_format, THEN conjunct1]
  note t4 = AggregateBySlot_aggregates [where ops = demo_ops and a = demo_agg and slot = 11
      and val = 3 and aggType = Max' and series = None,
      THEN conjunct2, THEN conjunct2, THEN conjunct1, rule_format, THEN conjunct1]
  note t5 = AggregateBySlot_aggregates [where ops = demo_ops and a = demo_agg and slot = 13
      and val = 3 and aggType = Sum and series = "Some [None, Some 5, None]",
      THEN conjunct2, THEN conjunct2, THEN conjunct2, THEN conjunct1, rule_format,
      where p = 1]
  have a5: "stored (Some (aggregateInto demo_ops demo_agg Sum (Some [None, Some 5, None])
        (13 - 10) 3)) 1 = Some 5"
    using t5 by (simp add: demo_agg_fields stored_def checkPos_def)
  have a1: "AggregateBySlot demo_ops demo_agg 11 \<infinity> = Done demo_agg"
    by (rule t1) (simp add: demo_ops_fields)
  have "\<not> IsPosInf demo_ops 3 \<and> length (fieldSeriesList demo_agg) = length (aggTypes demo_agg)"
    by (simp add: demo_ops_fields demo_agg_fields)
  from t2 [OF this] obtain a' where
    r: "AggregateBySlot demo_ops demo_agg 11 3 = Done a'"
    and n: "\<forall>idx<length (aggTypes demo_agg).
        fieldSeriesList a' ! idx =
        Some (aggregateInto demo_ops demo_agg (aggTypes demo_agg ! idx)
               (fieldSeriesList demo_agg ! idx) (11 - start demo_agg) 3)"
    by blast
  have n0: "fieldSeriesList a' ! 0 = Some [None, Some 8, None]"
    using n [rule_format, of 0] by (simp add: demo_agg_fields demo_aggregateInto)
  have n1: "fieldSeriesList a' ! 1 = Some [None, Some 3, None]"
    using n [rule_format, of 1] by (simp add: demo_agg_fields demo_aggregateInto)
  have a3: "stored (Some (aggregateInto demo_ops demo_agg Sum (Some [None, Some 5, None])
        (11 - 10) 3)) (11 - 10) = Some (5 + 3)"
    using t3 by (simp add: demo_agg_fields stored_def checkPos_def demo_ops_fields)
  have a4: "stored (Some (aggregateInto demo_ops demo_agg Max' None (11 - 10) 3)) (11 - 10)
      = Some 3"
    using t4 by (simp add: demo_agg_fields stored_def)
  show ?thesis using a1 r n0 n1 a3 a4 a5 by blast
qed

subsection \<open>The compaction job\<close>









































lemma foldl_removePending:
  "foldl (\<lambda>s output. removePendingOutput s (fileNumber output)) c fs
     = c\<lparr>pendingOutputs := pendingOutputs c - fileNumber ` set fs\<rparr>"
proof (induction fs arbitrary: c)
  case Nil
  then show ?case by simp
next
  case (Cons f fs)
  have "pendingOutputs c - {fileNumber f} - fileNumber ` set fs
      = pendingOutputs c - insert (fileNumber f) (fileNumber ` set fs)" by auto
  then show ?case
    unfolding foldl_Cons Cons.IH by (simp add: removePendingOutput_def)
qed

lemma cleanupCompaction_eq:
  "cleanupCompaction E c =
     c\<lparr>abandonedFiles := abandonedFiles c
          @ (case builder c of None \<Rightarrow> [] | Some b \<Rightarrow> [builderFileNumber b]),
       pendingOutputs := pendingOutputs c - jobFiles c\<rparr>"
proof (cases "builder c")
  case None
  then show ?thesis
    unfolding cleanupCompaction_def Let_def foldl_removePending
    by (simp add: jobFiles_def)
next
  case (Some b)
  have "pendingOutputs c - {builderFileNumber b} - fileNumber ` set (outputs c)
      = pendingOutputs c - insert (builderFileNumber b) (fileNumber ` set (outputs c))" by auto
  then show ?thesis using Some
    unfolding cleanupCompaction_def Let_def foldl_removePending
    by (simp add: jobFiles_def removePendingOutput_def)
qed









lemma Run_doMerge_error:
  assumes "rollup c \<or> \<not> IsTrivialMove (compaction c)" "doMerge E c = Done (Some e, c1)"
  shows "Run E c = Done (Some e, cleanupCompaction E c1)"
  using assms by (auto simp: Run_def mergeCompaction_def)



text \<open>
  C4. When a job without rollup has picked a trivial move, running it returns no error and
  commits one edit log, the compaction's log followed by the deletion of the file from its
  level and the addition of the same \<^verbatim>\<open>FileMeta\<close> to the next level; the version is
  changed by that log only. No file number is allocated, the pending outputs, the builder
  and the outputs are unchanged, no reader is opened and no file is closed or abandoned.
\<close>

theorem Run_trivial_move_metadata_only:
  "\<not> rollup c \<and> IsTrivialMove (compaction c) \<longrightarrow>
     (\<exists>f c'. levelInputs (compaction c) = [f] \<and> Run E c = Done (None, c')
        \<and> committedEditLogs c' = committedEditLogs c
             @ [editLog (compaction c)
                  @ [LogDeleteFile (level (compaction c)) (fileNumber f),
                     LogNewFile (level (compaction c) + 1) f]]
        \<and> currentVersion c' = foldl applyLog (currentVersion c)
             (editLog (compaction c)
                @ [LogDeleteFile (level (compaction c)) (fileNumber f),
                   LogNewFile (level (compaction c) + 1) f])
        \<and> nextFileNumber c' = nextFileNumber c
        \<and> pendingOutputs c' = pendingOutputs c
        \<and> builder c' = builder c
        \<and> outputs c' = outputs c
        \<and> openedReaders c' = openedReaders c
        \<and> closedFiles c' = closedFiles c
        \<and> abandonedFiles c' = abandonedFiles c)"
proof
  assume a: "\<not> rollup c \<and> IsTrivialMove (compaction c)"
  then obtain f where f: "levelInputs (compaction c) = [f]"
    by (auto simp: IsTrivialMove_def length_Suc_conv)
  show "\<exists>f c'. levelInputs (compaction c) = [f] \<and> Run E c = Done (None, c')
        \<and> committedEditLogs c' = committedEditLogs c
             @ [editLog (compaction c)
                  @ [LogDeleteFile (level (compaction c)) (fileNumber f),
                     LogNewFile (level (compaction c) + 1) f]]
        \<and> currentVersion c' = foldl applyLog (currentVersion c)
             (editLog (compaction c)
                @ [LogDeleteFile (level (compaction c)) (fileNumber f),
                   LogNewFile (level (compaction c) + 1) f])
        \<and> nextFileNumber c' = nextFileNumber c
        \<and> pendingOutputs c' = pendingOutputs c
        \<and> builder c' = builder c
        \<and> outputs c' = outputs c
        \<and> openedReaders c' = openedReaders c
        \<and> closedFiles c' = closedFiles c
        \<and> abandonedFiles c' = abandonedFiles c"
    using a f
    by (simp add: Run_def moveCompaction_def Let_def DeleteFile_def AddFile_def commitEditLog_def)
qed


lemma demo_job_fields:
  "rollup demo_job = False" "builder demo_job = None" "outputs demo_job = []"
  "pendingOutputs demo_job = {}" "nextFileNumber demo_job = 10"
  "committedEditLogs demo_job = []" "abandonedFiles demo_job = []"
  "levelInputs (compaction demo_job) = [demo_file1]"
  "levelUpInputs (compaction demo_job) = [demo_file2]"
  "maxFileSize demo_job = 1" "streamWriter demo_job = None"
  "demo_job\<lparr>streamWriter := None\<rparr> = demo_job"
  "demo_job_big\<lparr>streamWriter := None\<rparr> = demo_job_big"
  by (simp_all add: demo_job_def demo_job_big_def)

















lemma demo_stream_newMerger:
  "newMerger (demo_cenv_stream\<lparr>newTableBuilderFails := (\<lambda>n. True)\<rparr>) demo_job
     = Done (Some ErrNewTableBuilder, demo_job\<lparr>nextFileNumber := 11\<rparr>)"
  "newMerger (demo_cenv_stream\<lparr>readerOf := (\<lambda>n. None)\<rparr>) demo_job = Done (None, demo_opened)"
  "newMerger demo_cenv_close_fails demo_job_big = Done (None, demo_opened\<lparr>maxFileSize := 100\<rparr>)"
  "newMerger demo_cenv_no_write demo_job_zero = Done (None, demo_opened\<lparr>maxFileSize := 0\<rparr>)"
  by (simp_all add: newMerger_def demo_cenv_stream_def demo_cenv_close_fails_def
      demo_cenv_no_write_def demo_job_zero_def
      demo_cenv_def flusher_StreamWriter_def beforeAdd_def openCompactionOutputFile_def Let_def
      demo_job_fields demo_opened_def demo_job_big_def)








text \<open>
  Why the size of an empty builder has to be below the maximum file size: otherwise
  \<^verbatim>\<open>afterAdd\<close> finishes a builder that holds nothing, \<^verbatim>\<open>finishCompactionOutputFile\<close>
  drops it without an output file, and the cleanup after the error no longer knows its
  file number, which stays pending.
\<close>

lemma mergeCompaction_empty_builder_stays_pending:
  "\<exists>c'. Run demo_cenv_no_write demo_job_zero = Done (Some (ErrMerger ''merge failed''), c')
     \<and> pendingOutputs demo_job_zero = {} \<and> pendingOutputs c' = {10}
     \<and> builder c' = None \<and> outputs c' = [] \<and> abandonedFiles c' = []"
proof -
  have mi: "makeInputIterator demo_cenv_no_write (demo_opened\<lparr>maxFileSize := 0\<rparr>)
     = (Inr [(1, [7]), (2, [8])], demo_opened\<lparr>maxFileSize := 0, openedReaders := [1, 2]\<rparr>)"
    by (simp add: makeInputIterator_def GetInputs_def demo_opened_def demo_job_def demo_cenv_def
      demo_cenv_stream_def demo_cenv_no_write_def
      Let_def NewMergedIterator_def demo_file1_def demo_file2_def)
  have mg: "Merge demo_cenv_no_write (demo_opened\<lparr>maxFileSize := 0, openedReaders := [1, 2]\<rparr>)
       1 [[7]]
     = Done (Some (ErrMerger ''merge failed''),
          demo_opened\<lparr>maxFileSize := 0, openedReaders := [1, 2], builder := None\<rparr>)"
    by (simp add: Merge_def demo_cenv_no_write_def demo_cenv_stream_def demo_cenv_def
      streamWriter_Commit_def builder_StreamWrite_def builder_Add_def afterAdd_def
      finishCompactionOutputFile_def demo_opened_def)
  have "doMerge demo_cenv_no_write demo_job_zero
     = Done (Some (ErrMerger ''merge failed''),
          demo_opened\<lparr>maxFileSize := 0, openedReaders := [1, 2], builder := None\<rparr>)"
    by (simp add: doMerge_def demo_stream_newMerger mi mg)
  moreover have "rollup demo_job_zero \<or> \<not> IsTrivialMove (compaction demo_job_zero)"
    by (simp add: demo_job_zero_def IsTrivialMove_def demo_job_fields)
  ultimately have "Run demo_cenv_no_write demo_job_zero
     = Done (Some (ErrMerger ''merge failed''), cleanupCompaction demo_cenv_no_write
          (demo_opened\<lparr>maxFileSize := 0, openedReaders := [1, 2], builder := None\<rparr>))"
    by (intro Run_doMerge_error)
  then show ?thesis
    by (simp add: cleanupCompaction_eq jobFiles_def demo_opened_def demo_job_zero_def
        demo_job_fields)
qed

lemma demo_move_fields:
  "\<not> rollup demo_move_job" "IsTrivialMove (compaction demo_move_job)"
  "levelInputs (compaction demo_move_job) = [demo_file1]"
  "editLog (compaction demo_move_job) = []" "level (compaction demo_move_job) = 0"
  "committedEditLogs demo_move_job = []" "nextFileNumber demo_move_job = 10"
  "openedReaders demo_move_job = []" "builder demo_move_job = None"
  by (simp_all add: demo_move_job_def demo_job_def IsTrivialMove_def)

theorem Run_trivial_move_metadata_only_witness:
  "\<exists>c'. Run demo_cenv demo_move_job = Done (None, c')
     \<and> committedEditLogs c' = [[LogDeleteFile 0 1, LogNewFile 1 demo_file1]]
     \<and> nextFileNumber c' = 10 \<and> builder c' = None \<and> openedReaders c' = []"
proof -
  have "\<not> rollup demo_move_job \<and> IsTrivialMove (compaction demo_move_job)"
    by (simp add: demo_move_fields)
  from Run_trivial_move_metadata_only [where c = demo_move_job and E = demo_cenv,
      rule_format, OF this]
  show ?thesis by (auto simp: demo_move_fields demo_file1_def)
qed

end
